theory Spec2Isabelle
  imports Main "HOL-Library.Monad_Syntax"
begin

section \<open>Dates\<close>

text \<open>
  A JavaScript \<open>Date\<close> is modelled by its time value, the number of milliseconds since
  the epoch, as an unbounded \<open>int\<close>; comparing two dates compares their time values.
  The calendar methods of \<open>Date\<close> (\<open>getDay\<close>, \<open>getDate\<close>, \<open>setDate\<close>, \<open>getHours\<close>,
  \<open>getMinutes\<close>, \<open>setHours\<close>, \<open>toDateString\<close>) work in the local time of the host.
  ECMAScript defines them through two conversions,
  \<open>LocalTime(t) = t + LocalTZA(t, true)\<close> and \<open>UTC(t) = t - LocalTZA(t, false)\<close>,
  so the time zone of the host is a parameter of the model: its two offset functions.
  A local time that a forward change of the clock skips, or that a backward change
  repeats, is converted with the offset in force before the change.
  Only valid dates are modelled (no \<open>Invalid Date\<close>), and the range limit of
  \<open>TimeClip\<close> is left out.
\<close>

type_synonym instant = int

definition day_ms :: int where
  "day_ms = 86400000"

definition hour_ms :: int where
  "hour_ms = 3600000"

definition minute_ms :: int where
  "minute_ms = 60000"

record zone =
  offsetAt :: "instant \<Rightarrow> int"       \<comment> \<open>\<open>LocalTZA(t, true)\<close>: the offset in force at an instant\<close>
  offsetOfLocal :: "int \<Rightarrow> int"      \<comment> \<open>\<open>LocalTZA(t, false)\<close>: the offset of a local time\<close>

definition localTime :: "zone \<Rightarrow> instant \<Rightarrow> int" where
  "localTime z t = t + offsetAt z t"

definition utcTime :: "zone \<Rightarrow> int \<Rightarrow> instant" where
  "utcTime z t = t - offsetOfLocal z t"

definition localDay :: "zone \<Rightarrow> instant \<Rightarrow> int" where
  \<comment> \<open>\<open>Day(LocalTime(t))\<close>: the number of the local calendar day\<close>
  "localDay z t = localTime z t div day_ms"

definition getDay :: "zone \<Rightarrow> instant \<Rightarrow> int" where
  \<comment> \<open>\<open>Date.prototype.getDay\<close>: 0 = Sunday; the epoch fell on a Thursday.\<close>
  "getDay z t = (localDay z t + 4) mod 7"

definition getHours :: "zone \<Rightarrow> instant \<Rightarrow> int" where
  "getHours z t = (localTime z t mod day_ms) div hour_ms"

definition getMinutes :: "zone \<Rightarrow> instant \<Rightarrow> int" where
  "getMinutes z t = (localTime z t mod hour_ms) div minute_ms"

definition addDays :: "zone \<Rightarrow> instant \<Rightarrow> int \<Rightarrow> instant" where
  \<comment> \<open>\<open>d.setDate(d.getDate() + n)\<close>: the local time moves by \<open>n\<close> calendar days, the
      time within the day stays, and the result is converted back to an instant.\<close>
  "addDays z t n = utcTime z (localTime z t + n * day_ms)"

definition toDateString :: "zone \<Rightarrow> instant \<Rightarrow> int" where
  \<comment> \<open>\<open>Date.prototype.toDateString\<close> renders the local calendar date only; the date
      is represented by its day number.\<close>
  "toDateString z t = localDay z t"

text \<open>
  A time of day travels through the code as the string \<open>`${hours}:${minutes}`\<close>
  (minutes padded to two digits) and is read back with \<open>split(':')\<close> and
  \<open>parseInt\<close>. It is represented by the two numbers the string renders.
\<close>

type_synonym time_of_day = "int \<times> int"

definition timeString :: "zone \<Rightarrow> instant \<Rightarrow> time_of_day" where
  "timeString z t = (getHours z t, getMinutes z t)"

definition combineDateAndTime :: "zone \<Rightarrow> instant \<Rightarrow> time_of_day \<Rightarrow> instant" where
  \<comment> \<open>\<open>combined.setHours(hours, minutes, 0, 0)\<close> on a copy of the date: the local
      calendar day stays, the time within the day is replaced.\<close>
  "combineDateAndTime z date ts =
     (case ts of (hours, minutes) \<Rightarrow>
        utcTime z (localDay z date * day_ms + hours * hour_ms + minutes * minute_ms))"

definition utcZone :: zone where
  \<comment> \<open>a host that runs in UTC\<close>
  "utcZone = \<lparr>offsetAt = (\<lambda>t. 0), offsetOfLocal = (\<lambda>t. 0)\<rparr>"

text \<open>
  A zone is regular when its offsets stay within a day of UTC and when a local time,
  converted to an instant and back, is still on the same calendar day. Zones with a
  fixed offset are regular, and so are zones with daylight saving: the hour a clock
  change skips does not reach the next midnight. A zone that skips a whole calendar
  day is not regular.
\<close>

definition regularZone :: "zone \<Rightarrow> bool" where
  "regularZone z \<longleftrightarrow>
     (\<forall>t. \<bar>offsetAt z t\<bar> \<le> day_ms)
   \<and> (\<forall>t. \<bar>offsetOfLocal z t\<bar> \<le> day_ms)
   \<and> (\<forall>t. localDay z (utcTime z t) = t div day_ms)"

section \<open>Interval overlap\<close>

text \<open>
  The \<open>$or\<close> clause of the overlap query, for a stored document with fields
  \<open>(docStart, docEnd)\<close> against the candidate \<open>(startTime, endTime)\<close>.
\<close>

definition startsDuring :: "instant \<Rightarrow> instant \<Rightarrow> instant \<Rightarrow> bool" where
  "startsDuring docStart docEnd startTime \<longleftrightarrow> docStart \<le> startTime \<and> docEnd > startTime"

definition endsDuring :: "instant \<Rightarrow> instant \<Rightarrow> instant \<Rightarrow> bool" where
  "endsDuring docStart docEnd endTime \<longleftrightarrow> docStart < endTime \<and> docEnd \<ge> endTime"

definition containedBy :: "instant \<Rightarrow> instant \<Rightarrow> instant \<Rightarrow> instant \<Rightarrow> bool" where
  "containedBy docStart docEnd startTime endTime \<longleftrightarrow> docStart \<ge> startTime \<and> docEnd \<le> endTime"

definition containsAll :: "instant \<Rightarrow> instant \<Rightarrow> instant \<Rightarrow> instant \<Rightarrow> bool" where
  "containsAll docStart docEnd startTime endTime \<longleftrightarrow> docStart \<le> startTime \<and> docEnd \<ge> endTime"

definition overlapQuery :: "instant \<Rightarrow> instant \<Rightarrow> instant \<Rightarrow> instant \<Rightarrow> bool" where
  "overlapQuery docStart docEnd startTime endTime \<longleftrightarrow>
     startsDuring docStart docEnd startTime
   \<or> endsDuring docStart docEnd endTime
   \<or> containedBy docStart docEnd startTime endTime
   \<or> containsAll docStart docEnd startTime endTime"

text \<open>
  The two-inequality form: the spec's \<open>overlaps\<close>, and the test
  \<open>startTime < recurringEnd && endTime > recurringStart\<close> of the recurring scan.
\<close>

definition overlaps :: "instant \<Rightarrow> instant \<Rightarrow> instant \<Rightarrow> instant \<Rightarrow> bool" where
  "overlaps aStart aEnd bStart bEnd \<longleftrightarrow> aStart < bEnd \<and> bStart < aEnd"

section \<open>Recurrence expansion\<close>

text \<open>
  \<open>generateRecurringDates\<close> has two loops. The first advances day by day until the
  weekday matches; it never ends when \<open>dayOfWeek\<close> is not one of 0..6. The second
  appends the current date and advances by seven days while the current date is not
  after the end; it ends when advancing moves the instant forward, which is up to the
  zone. Both are partial functions: \<open>None\<close> is a loop that never ends.
\<close>

partial_function (option) firstOccurrence :: "zone \<Rightarrow> instant \<Rightarrow> int \<Rightarrow> instant option" where
  "firstOccurrence z current dayOfWeek =
     (if getDay z current \<noteq> dayOfWeek then firstOccurrence z (addDays z current 1) dayOfWeek
      else Some current)"

declare firstOccurrence.simps [code]

partial_function (option) allOccurrences :: "zone \<Rightarrow> instant \<Rightarrow> instant \<Rightarrow> instant list option" where
  "allOccurrences z current endDate =
     (if current \<le> endDate
      then Option.bind (allOccurrences z (addDays z current 7) endDate)
             (\<lambda>dates. Some (current # dates))
      else Some [])"

declare allOccurrences.simps [code]

definition generateRecurringDates ::
  "zone \<Rightarrow> instant \<Rightarrow> instant \<Rightarrow> int \<Rightarrow> instant list option" where
  "generateRecurringDates z startDate endDate dayOfWeek =
     (case firstOccurrence z startDate dayOfWeek of
        None \<Rightarrow> None
      | Some current \<Rightarrow> allOccurrences z current endDate)"

section \<open>Documents and collections\<close>

text \<open>
  The Mongoose schemas \<open>Room\<close>, \<open>Booking\<close>, \<open>RecurrenceGroup\<close> and \<open>Notification\<close>.
  Object ids are natural numbers drawn from a counter. Free-text fields (title,
  description, notification title and message) and the timestamps \<open>createdAt\<close> and
  \<open>updatedAt\<close> carry no logic and are left out, except the cancellation reason.
\<close>

type_synonym oid = nat

datatype status = Confirmed | Cancelled | Completed

datatype role = Admin | Member

record user =
  u_id :: oid
  u_role :: role

record room_doc =
  r_id :: oid
  r_name :: string
  capacity :: int

record booking =
  b_id :: oid
  room :: oid
  bookedBy :: oid
  startTime :: instant
  endTime :: instant
  attendees :: "oid list"
  recurrenceGroup :: "oid option"
  status :: status
  cancelledBy :: "oid option"
  cancellationReason :: "string option"
  cancelledAt :: "instant option"

record recurrence_group =
  g_id :: oid
  createdBy :: oid
  g_room :: oid
  dayOfWeek :: int
  startDate :: instant
  endDate :: instant
  baseStartTime :: time_of_day
  baseEndTime :: time_of_day

datatype notification_type =
  booking_created | booking_cancelled | booking_updated | admin_override
  | meeting_scheduled | user_action_alert | room_deleted

record notification =
  n_user :: oid
  n_type :: notification_type
  n_booking :: "oid option"
  n_room :: "oid option"

record db =
  rooms :: "room_doc list"
  bookings :: "booking list"
  groups :: "recurrence_group list"
  notifications :: "notification list"
  admins :: "oid list"
  next_id :: nat

datatype exn =
  SaveError          \<comment> \<open>\<open>Error('End time must be after start time')\<close> of the pre-save hook\<close>
  | ValidationError  \<comment> \<open>a schema validator failed\<close>
  | ReferenceError   \<comment> \<open>an undeclared identifier was read\<close>
  | TypeError        \<comment> \<open>a property of \<open>undefined\<close> was read\<close>

datatype failure =
  AttendeeRequired            \<comment> \<open>400 'At least one attendee is required for the booking'\<close>
  | RoomNotFound              \<comment> \<open>404 'Room not found'\<close>
  | TooManyAttendees          \<comment> \<open>400 'Too many attendees. Room capacity is ...'\<close>
  | SlotTaken                 \<comment> \<open>400 'Room is already booked for this time slot ...'\<close>
  | DatesTaken "int list"     \<comment> \<open>400 'Room is already booked on the following dates: ...'\<close>
  | BookingNotFound           \<comment> \<open>404 'Booking not found'\<close>
  | NotAuthorized             \<comment> \<open>403\<close>
  | ActiveUpcoming            \<comment> \<open>400 'Cannot delete active upcoming bookings ...'\<close>
  | InvalidRequest "string list"  \<comment> \<open>the request validators of the route failed\<close>
  | Uncaught exn              \<comment> \<open>\<open>next(error)\<close>\<close>

subsection \<open>Model operations\<close>

definition findRoom :: "db \<Rightarrow> oid \<Rightarrow> room_doc option" where
  "findRoom s i = find (\<lambda>r. r_id r = i) (rooms s)"

definition findBooking :: "db \<Rightarrow> oid \<Rightarrow> booking option" where
  "findBooking s i = find (\<lambda>b. b_id b = i) (bookings s)"

definition Notification_create :: "notification \<Rightarrow> db \<Rightarrow> db" where
  "Notification_create n s = s\<lparr>notifications := notifications s @ [n]\<rparr>"

definition Notification_insertMany :: "notification list \<Rightarrow> db \<Rightarrow> db" where
  "Notification_insertMany ns s = s\<lparr>notifications := notifications s @ ns\<rparr>"

definition preSave :: "booking \<Rightarrow> bool" where
  \<comment> \<open>the \<open>pre('save')\<close> hook of the Booking schema lets the document through\<close>
  "preSave b \<longleftrightarrow> \<not> (endTime b \<le> startTime b)"

definition Booking_save :: "booking \<Rightarrow> db \<Rightarrow> exn + db" where
  \<comment> \<open>\<open>doc.save()\<close> of a loaded document: the hook runs, then the stored document
      with the same id is replaced. The hook also runs under
      \<open>validateBeforeSave: false\<close>, which only skips the schema validators.\<close>
  "Booking_save b s =
     (if \<not> preSave b then Inl SaveError
      else Inr (s\<lparr>bookings := map (\<lambda>x. if b_id x = b_id b then b else x) (bookings s)\<rparr>))"

definition Booking_create ::
  "oid \<Rightarrow> oid \<Rightarrow> instant \<Rightarrow> instant \<Rightarrow> oid list \<Rightarrow> oid option \<Rightarrow> db \<Rightarrow> exn + booking \<times> db" where
  \<comment> \<open>\<open>Booking.create\<close>: schema defaults (\<open>status: 'confirmed'\<close>), the attendees
      validator, the pre-save hook, then the insert under a fresh id.\<close>
  "Booking_create roomId organizer st en atts grp s =
     (let b = \<lparr>b_id = next_id s, room = roomId, bookedBy = organizer, startTime = st,
                endTime = en, attendees = atts, recurrenceGroup = grp, status = Confirmed,
                cancelledBy = None, cancellationReason = None, cancelledAt = None\<rparr>
      in if atts = [] then Inl ValidationError
         else if \<not> preSave b then Inl SaveError
         else Inr (b, s\<lparr>bookings := bookings s @ [b], next_id := Suc (next_id s)\<rparr>))"

definition RecurrenceGroup_create ::
  "oid \<Rightarrow> oid \<Rightarrow> int \<Rightarrow> instant \<Rightarrow> instant \<Rightarrow> time_of_day \<Rightarrow> time_of_day \<Rightarrow> db
     \<Rightarrow> exn + recurrence_group \<times> db" where
  \<comment> \<open>\<open>RecurrenceGroup.create\<close>: \<open>dayOfWeek\<close> has \<open>min: 0, max: 6\<close>.\<close>
  "RecurrenceGroup_create creator roomId dow sd ed bst bet s =
     (let g = \<lparr>g_id = next_id s, createdBy = creator, g_room = roomId, dayOfWeek = dow,
                startDate = sd, endDate = ed, baseStartTime = bst, baseEndTime = bet\<rparr>
      in if dow < 0 \<or> 6 < dow then Inl ValidationError
         else Inr (g, s\<lparr>groups := groups s @ [g], next_id := Suc (next_id s)\<rparr>))"


subsection \<open>NotificationService\<close>

text \<open>
  Each service method swallows its own errors; it only adds notifications. The two
  attendee methods skip an attendee when
  \<open>attendeeId.toString() === organizer._id.toString()\<close>. The test can only hold on a
  booking whose attendees are ids. On a booking that went through
  \<open>populate('room bookedBy attendees')\<close> an attendee is a user document, whose
  \<open>toString\<close> does not render an id: nobody is skipped, the organizer included.
\<close>

definition notifyAdminsOfUserAction ::
  "oid option \<Rightarrow> oid option \<Rightarrow> user \<Rightarrow> db \<Rightarrow> db" where
  "notifyAdminsOfUserAction bookingId roomId performedBy s =
     Notification_insertMany
       (map (\<lambda>a. \<lparr>n_user = a, n_type = user_action_alert, n_booking = bookingId, n_room = roomId\<rparr>)
            (filter (\<lambda>a. a \<noteq> u_id performedBy) (admins s))) s"

definition notifyAttendeesOfMeeting :: "booking \<Rightarrow> bool \<Rightarrow> user \<Rightarrow> db \<Rightarrow> db" where
  \<comment> \<open>\<open>populated\<close>: the booking handed over is a populated document\<close>
  "notifyAttendeesOfMeeting b populated organizer s =
     Notification_insertMany
       (map (\<lambda>a. \<lparr>n_user = a, n_type = meeting_scheduled, n_booking = Some (b_id b),
                    n_room = Some (room b)\<rparr>)
            (filter (\<lambda>a. populated \<or> a \<noteq> u_id organizer) (attendees b))) s"

definition notifyAttendeesOfMeetingUpdate ::
  "booking \<Rightarrow> bool \<Rightarrow> oid option \<Rightarrow> user \<Rightarrow> db \<Rightarrow> db" where
  \<comment> \<open>\<open>roomRef\<close>: what \<open>booking.room\<close> holds, \<open>None\<close> for the \<open>null\<close> that \<open>populate\<close>
      leaves when the room is gone\<close>
  "notifyAttendeesOfMeetingUpdate b populated roomRef organizer s =
     Notification_insertMany
       (map (\<lambda>a. \<lparr>n_user = a, n_type = booking_updated, n_booking = Some (b_id b),
                    n_room = roomRef\<rparr>)
            (filter (\<lambda>a. populated \<or> a \<noteq> u_id organizer) (attendees b))) s"

definition notifyAdminsOfRoomAction :: "oid \<Rightarrow> user \<Rightarrow> db \<Rightarrow> db" where
  "notifyAdminsOfRoomAction roomId performedBy s =
     Notification_insertMany
       (map (\<lambda>a. \<lparr>n_user = a, n_type = room_deleted, n_booking = None, n_room = Some roomId\<rparr>)
            (filter (\<lambda>a. a \<noteq> u_id performedBy) (admins s))) s"

section \<open>The conflict scanner\<close>

definition overlapFilter :: "oid \<Rightarrow> instant \<Rightarrow> instant \<Rightarrow> booking \<Rightarrow> bool" where
  \<comment> \<open>the query \<open>{ room, status: 'confirmed', $or: [...] }\<close>\<close>
  "overlapFilter roomId st en b \<longleftrightarrow>
     room b = roomId \<and> status b = Confirmed \<and> overlapQuery (startTime b) (endTime b) st en"

definition checkOverlap :: "db \<Rightarrow> oid \<Rightarrow> instant \<Rightarrow> instant \<Rightarrow> oid option \<Rightarrow> bool" where
  "checkOverlap s roomId st en excludeBookingId =
     list_ex (\<lambda>b. overlapFilter roomId st en b
                 \<and> (case excludeBookingId of None \<Rightarrow> True | Some i \<Rightarrow> b_id b \<noteq> i))
             (bookings s)"

definition overlapsInstance ::
  "zone \<Rightarrow> recurrence_group \<Rightarrow> instant \<Rightarrow> instant \<Rightarrow> instant \<Rightarrow> bool" where
  "overlapsInstance z g st en date \<longleftrightarrow>
     st < combineDateAndTime z date (baseEndTime g)
   \<and> en > combineDateAndTime z date (baseStartTime g)"

fun scanGroups :: "zone \<Rightarrow> recurrence_group list \<Rightarrow> instant \<Rightarrow> instant \<Rightarrow> bool option" where
  "scanGroups z [] st en = Some False"
| "scanGroups z (g # gs) st en =
     (case generateRecurringDates z (startDate g) (endDate g) (dayOfWeek g) of
        None \<Rightarrow> None
      | Some recurringDates \<Rightarrow>
          if list_ex (overlapsInstance z g st en) recurringDates then Some True
          else scanGroups z gs st en)"

definition activeRecurrenceGroups :: "db \<Rightarrow> oid \<Rightarrow> instant \<Rightarrow> instant \<Rightarrow> recurrence_group list" where
  "activeRecurrenceGroups s roomId st en =
     filter (\<lambda>g. g_room g = roomId \<and> startDate g \<le> en \<and> endDate g \<ge> st) (groups s)"

definition checkOverlapWithRecurring ::
  "zone \<Rightarrow> db \<Rightarrow> oid \<Rightarrow> instant \<Rightarrow> instant \<Rightarrow> oid option \<Rightarrow> bool option" where
  "checkOverlapWithRecurring z s roomId st en excludeBookingId =
     (if checkOverlap s roomId st en excludeBookingId then Some True
      else scanGroups z (activeRecurrenceGroups s roomId st en) st en)"


section \<open>bookingController\<close>

record booking_request =
  req_room :: oid
  req_startTime :: instant
  req_endTime :: instant
  req_attendees :: "oid list option"    \<comment> \<open>\<open>None\<close>: absent or not an array\<close>
  req_isRecurring :: bool
  req_recurrenceEndDate :: "instant option"

subsection \<open>Admin override\<close>

definition conflictingBookings :: "db \<Rightarrow> oid \<Rightarrow> instant \<Rightarrow> instant \<Rightarrow> booking list" where
  "conflictingBookings s roomId st en = filter (overlapFilter roomId st en) (bookings s)"

definition markCancelled :: "user \<Rightarrow> instant \<Rightarrow> string \<Rightarrow> booking \<Rightarrow> booking" where
  "markCancelled u now reason b =
     b\<lparr>status := Cancelled, cancelledBy := Some (u_id u), cancelledAt := Some now,
       cancellationReason := Some reason\<rparr>"

definition overrideNotification :: "booking \<Rightarrow> notification" where
  \<comment> \<open>'Booking Cancelled by Admin', sent to the organizer of the cancelled booking\<close>
  "overrideNotification conflictBooking =
     \<lparr>n_user = bookedBy conflictBooking, n_type = admin_override,
      n_booking = Some (b_id conflictBooking), n_room = Some (room conflictBooking)\<rparr>"

fun cancelConflictingBookings ::
  "user \<Rightarrow> instant \<Rightarrow> string \<Rightarrow> booking list \<Rightarrow> db \<Rightarrow> exn option \<times> db" where
  "cancelConflictingBookings u now reason [] s = (None, s)"
| "cancelConflictingBookings u now reason (conflictBooking # rest) s =
     (case Booking_save (markCancelled u now reason conflictBooking) s of
        Inl e \<Rightarrow> (Some e, s)
      | Inr s1 \<Rightarrow>
          cancelConflictingBookings u now reason rest
            (Notification_create (overrideNotification conflictBooking) s1))"

definition adminOverride ::
  "user \<Rightarrow> instant \<Rightarrow> string \<Rightarrow> oid \<Rightarrow> instant \<Rightarrow> instant \<Rightarrow> db \<Rightarrow> exn option \<times> db" where
  "adminOverride u now reason roomId st en s =
     cancelConflictingBookings u now reason (conflictingBookings s roomId st en) s"

definition overrideReason :: string where
  "overrideReason = ''Admin override - conflicting booking created''"

definition overrideReasonRecurring :: string where
  "overrideReasonRecurring = ''Admin override - recurring booking created''"

subsection \<open>createBooking\<close>

definition createBooking_check ::
  "zone \<Rightarrow> db \<Rightarrow> user \<Rightarrow> booking_request \<Rightarrow> (failure + oid list) option" where
  \<comment> \<open>the checks before anything is written; the result is the attendee list\<close>
  "createBooking_check z s u req =
     (case req_attendees req of
        None \<Rightarrow> Some (Inl AttendeeRequired)
      | Some atts \<Rightarrow>
          if atts = [] then Some (Inl AttendeeRequired)
          else (case findRoom s (req_room req) of
                  None \<Rightarrow> Some (Inl RoomNotFound)
                | Some roomExists \<Rightarrow>
                    if int (length atts) > capacity roomExists then Some (Inl TooManyAttendees)
                    else if u_role u \<noteq> Admin then
                      (case checkOverlapWithRecurring z s (req_room req) (req_startTime req)
                              (req_endTime req) None of
                         None \<Rightarrow> None
                       | Some hasOverlap \<Rightarrow> Some (if hasOverlap then Inl SlotTaken else Inr atts))
                    else Some (Inr atts)))"

fun conflictDates ::
  "zone \<Rightarrow> db \<Rightarrow> oid \<Rightarrow> time_of_day \<Rightarrow> time_of_day \<Rightarrow> instant list \<Rightarrow> int list option" where
  "conflictDates z s roomId bst bet [] = Some []"
| "conflictDates z s roomId bst bet (date # dates) =
     (case checkOverlapWithRecurring z s roomId (combineDateAndTime z date bst)
             (combineDateAndTime z date bet) None of
        None \<Rightarrow> None
      | Some overlap \<Rightarrow>
          (case conflictDates z s roomId bst bet dates of
             None \<Rightarrow> None
           | Some rest \<Rightarrow> Some (if overlap then toDateString z date # rest else rest)))"

fun createRecurringBookings ::
  "zone \<Rightarrow> user \<Rightarrow> instant \<Rightarrow> oid \<Rightarrow> oid list \<Rightarrow> oid \<Rightarrow> time_of_day \<Rightarrow> time_of_day
     \<Rightarrow> instant list \<Rightarrow> booking list \<Rightarrow> db \<Rightarrow> (exn + booking list) \<times> db" where
  "createRecurringBookings z u now roomId atts grp bst bet [] createdBookings s =
     (Inr createdBookings, s)"
| "createRecurringBookings z u now roomId atts grp bst bet (date # dates) createdBookings s =
     (let bookingStart = combineDateAndTime z date bst;
          bookingEnd = combineDateAndTime z date bet;
          r = (if u_role u = Admin
               then adminOverride u now overrideReasonRecurring roomId bookingStart bookingEnd s
               else (None, s))
      in case fst r of
           Some e \<Rightarrow> (Inl e, snd r)
         | None \<Rightarrow>
             (case Booking_create roomId (u_id u) bookingStart bookingEnd atts (Some grp) (snd r) of
                Inl e \<Rightarrow> (Inl e, snd r)
              | Inr (b, s2) \<Rightarrow>
                  createRecurringBookings z u now roomId atts grp bst bet dates
                    (createdBookings @ [b]) s2))"

definition respondRecurring ::
  "db \<Rightarrow> user \<Rightarrow> booking_request \<Rightarrow> booking list \<Rightarrow> (failure + booking) \<times> db" where
  \<comment> \<open>The statements after the creation loop. The argument \<open>createdBookings[0]._id\<close> of
      the admin alert throws on an empty list. The bookings handed to
      \<open>notifyAttendeesOfMeeting\<close> come straight from \<open>Booking.create\<close> and are not
      populated. The last statement builds the 201 response from \<open>failedDates.length\<close>;
      \<open>failedDates\<close> is declared nowhere, so the statement throws and the \<open>catch\<close> hands
      the error to \<open>next\<close>.\<close>
  "respondRecurring s2 u req createdBookings =
     (let s3 = Notification_create
                 \<lparr>n_user = u_id u, n_type = booking_created,
                  n_booking = None, n_room = Some (req_room req)\<rparr> s2
      in if u_role u \<noteq> Admin \<and> createdBookings = []
         then (Inl (Uncaught TypeError), s3)
         else
           (let s4 = (if u_role u \<noteq> Admin
                      then notifyAdminsOfUserAction (Some (b_id (hd createdBookings)))
                             (Some (req_room req)) u s3
                      else s3);
                s5 = fold (\<lambda>b. notifyAttendeesOfMeeting b False u) createdBookings s4
            in (Inl (Uncaught ReferenceError), s5)))"

definition createRecurring ::
  "zone \<Rightarrow> db \<Rightarrow> instant \<Rightarrow> user \<Rightarrow> booking_request \<Rightarrow> oid list \<Rightarrow> instant
     \<Rightarrow> ((failure + booking) \<times> db) option" where
  \<comment> \<open>the branch \<open>if (isRecurring && recurrenceEndDate)\<close>\<close>
  "createRecurring z s now u req atts recurrenceEnd =
     (let startDateTime = req_startTime req;
          endDateTime = req_endTime req;
          dow = getDay z startDateTime;
          bst = timeString z startDateTime;
          bet = timeString z endDateTime
      in case RecurrenceGroup_create (u_id u) (req_room req) dow startDateTime recurrenceEnd
                bst bet s of
           Inl e \<Rightarrow> Some (Inl (Uncaught e), s)
         | Inr (g, s1) \<Rightarrow>
            (case generateRecurringDates z startDateTime recurrenceEnd dow of
               None \<Rightarrow> None
             | Some recurringDates \<Rightarrow>
                (case (if u_role u \<noteq> Admin
                       then conflictDates z s1 (req_room req) bst bet recurringDates
                       else Some []) of
                   None \<Rightarrow> None
                 | Some cds \<Rightarrow>
                    if cds \<noteq> [] then Some (Inl (DatesTaken cds), s1)
                    else
                      (case createRecurringBookings z u now (req_room req) atts (g_id g) bst bet
                              recurringDates [] s1 of
                         (Inl e, s2) \<Rightarrow> Some (Inl (Uncaught e), s2)
                       | (Inr createdBookings, s2) \<Rightarrow>
                           Some (respondRecurring s2 u req createdBookings)))))"

definition persistSingle ::
  "db \<Rightarrow> user \<Rightarrow> booking_request \<Rightarrow> oid list \<Rightarrow> bool \<Rightarrow> (failure + booking) \<times> db" where
  \<comment> \<open>\<open>Booking.create\<close> of the single booking and the notifications after it; the
      booking is populated before it is handed to \<open>notifyAttendeesOfMeeting\<close>\<close>
  "persistSingle s1 u req atts isAdminOverride =
     (case Booking_create (req_room req) (u_id u) (req_startTime req) (req_endTime req)
             atts None s1 of
        Inl e \<Rightarrow> (Inl (Uncaught e), s1)
      | Inr (b, s2) \<Rightarrow>
         (let s3 = Notification_create
                     \<lparr>n_user = u_id u,
                      n_type = (if isAdminOverride then admin_override else booking_created),
                      n_booking = Some (b_id b), n_room = Some (room b)\<rparr> s2;
              s4 = (if u_role u \<noteq> Admin
                    then notifyAdminsOfUserAction (Some (b_id b)) (Some (room b)) u s3
                    else s3);
              s5 = notifyAttendeesOfMeeting b True u s4
          in (Inr b, s5)))"

definition createSingle ::
  "zone \<Rightarrow> db \<Rightarrow> instant \<Rightarrow> user \<Rightarrow> booking_request \<Rightarrow> oid list
     \<Rightarrow> ((failure + booking) \<times> db) option" where
  "createSingle z s now u req atts =
     (if u_role u = Admin then
        (case checkOverlapWithRecurring z s (req_room req) (req_startTime req)
                (req_endTime req) None of
           None \<Rightarrow> None
         | Some hasOverlap \<Rightarrow>
             if hasOverlap then
               (case adminOverride u now overrideReason (req_room req)
                       (req_startTime req) (req_endTime req) s of
                  (Some e, s1) \<Rightarrow> Some (Inl (Uncaught e), s1)
                | (None, s1) \<Rightarrow> Some (persistSingle s1 u req atts True))
             else Some (persistSingle s u req atts False))
      else Some (persistSingle s u req atts False))"

definition createBooking_commit ::
  "zone \<Rightarrow> db \<Rightarrow> instant \<Rightarrow> user \<Rightarrow> booking_request \<Rightarrow> oid list
     \<Rightarrow> ((failure + booking) \<times> db) option" where
  "createBooking_commit z s now u req atts =
     (case req_recurrenceEndDate req of
        Some recurrenceEnd \<Rightarrow>
          if req_isRecurring req then createRecurring z s now u req atts recurrenceEnd
          else createSingle z s now u req atts
      | None \<Rightarrow> createSingle z s now u req atts)"

definition createBooking ::
  "zone \<Rightarrow> db \<Rightarrow> instant \<Rightarrow> user \<Rightarrow> booking_request \<Rightarrow> ((failure + booking) \<times> db) option" where
  "createBooking z s now u req =
     (case createBooking_check z s u req of
        None \<Rightarrow> None
      | Some (Inl f) \<Rightarrow> Some (Inl f, s)
      | Some (Inr atts) \<Rightarrow> createBooking_commit z s now u req atts)"


subsection \<open>updateBooking\<close>

text \<open>
  The handler reads \<open>startTime\<close>, \<open>endTime\<close> and \<open>room\<close> from the top level of the body
  and scans only when one of them is truthy; \<open>findByIdAndUpdate(id, req.body)\<close> then
  writes the whole body, and runs no \<open>save\<close> hook. The route has no validator. So the
  body is modelled by what the two of them see in it, for the fields \<open>room\<close>,
  \<open>startTime\<close>, \<open>endTime\<close> and \<open>status\<close>; the other fields of a booking are not
  read by any check and are left out.

  A date at the top level is a number (its time value) or a date string; both are
  written as the date they denote, but the number 0 is falsy for the handler.
  A body may also carry update operators (\<open>$set\<close>, \<open>$currentDate\<close>, ...), which the
  handler does not look at: the fields \<open>op_...\<close> hold what the operators write to a
  field, if anything. Mongoose turns the top-level fields into a \<open>$set\<close> of their own,
  which wins over an operator on the same field. Values that Mongoose refuses to cast,
  or that a schema validator refuses (\<open>null\<close>, the empty string, a boolean, a status
  outside the enumeration), make the request fail without a write and are not modelled.
\<close>

datatype date_value = DateNumber int | DateString instant

fun truthy :: "date_value \<Rightarrow> bool" where
  "truthy (DateNumber n) = (n \<noteq> 0)"
| "truthy (DateString t) = True"

fun toDate :: "date_value \<Rightarrow> instant" where
  \<comment> \<open>\<open>new Date(value)\<close>, and the cast of Mongoose\<close>
  "toDate (DateNumber n) = n"
| "toDate (DateString t) = t"

record update_body =
  upd_startTime :: "date_value option"
  upd_endTime :: "date_value option"
  upd_room :: "oid option"
  upd_status :: "status option"
  op_startTime :: "instant option"
  op_endTime :: "instant option"
  op_room :: "oid option"
  op_status :: "status option"

definition bodyStartTime :: "update_body \<Rightarrow> instant option" where
  \<comment> \<open>\<open>startTime ? new Date(startTime) : ...\<close>\<close>
  "bodyStartTime body =
     (case upd_startTime body of
        Some v \<Rightarrow> if truthy v then Some (toDate v) else None
      | None \<Rightarrow> None)"

definition bodyEndTime :: "update_body \<Rightarrow> instant option" where
  "bodyEndTime body =
     (case upd_endTime body of
        Some v \<Rightarrow> if truthy v then Some (toDate v) else None
      | None \<Rightarrow> None)"

definition writtenStartTime :: "update_body \<Rightarrow> instant option" where
  "writtenStartTime body =
     (case upd_startTime body of Some v \<Rightarrow> Some (toDate v) | None \<Rightarrow> op_startTime body)"

definition writtenEndTime :: "update_body \<Rightarrow> instant option" where
  "writtenEndTime body =
     (case upd_endTime body of Some v \<Rightarrow> Some (toDate v) | None \<Rightarrow> op_endTime body)"

definition writtenRoom :: "update_body \<Rightarrow> oid option" where
  "writtenRoom body = (case upd_room body of Some r \<Rightarrow> Some r | None \<Rightarrow> op_room body)"

definition writtenStatus :: "update_body \<Rightarrow> status option" where
  "writtenStatus body = (case upd_status body of Some st \<Rightarrow> Some st | None \<Rightarrow> op_status body)"

definition applyUpdate :: "update_body \<Rightarrow> booking \<Rightarrow> booking" where
  \<comment> \<open>what \<open>findByIdAndUpdate\<close> does to the document\<close>
  "applyUpdate body b =
     b\<lparr>startTime := (case writtenStartTime body of Some t \<Rightarrow> t | None \<Rightarrow> startTime b),
       endTime := (case writtenEndTime body of Some t \<Rightarrow> t | None \<Rightarrow> endTime b),
       room := (case writtenRoom body of Some r \<Rightarrow> r | None \<Rightarrow> room b),
       status := (case writtenStatus body of Some st \<Rightarrow> st | None \<Rightarrow> status b)\<rparr>"

definition changesSlot :: "update_body \<Rightarrow> bool" where
  \<comment> \<open>\<open>if (startTime || endTime || room)\<close>\<close>
  "changesSlot body \<longleftrightarrow>
     bodyStartTime body \<noteq> None \<or> bodyEndTime body \<noteq> None \<or> upd_room body \<noteq> None"

definition updateBooking :: "db \<Rightarrow> user \<Rightarrow> oid \<Rightarrow> update_body \<Rightarrow> (failure + booking) \<times> db" where
  "updateBooking s u i body =
     (case findBooking s i of
        None \<Rightarrow> (Inl BookingNotFound, s)
      | Some b \<Rightarrow>
          if u_role u \<noteq> Admin \<and> bookedBy b \<noteq> u_id u then (Inl NotAuthorized, s)
          else
            (let newStartTime = (case bodyStartTime body of Some t \<Rightarrow> t | None \<Rightarrow> startTime b);
                 newEndTime = (case bodyEndTime body of Some t \<Rightarrow> t | None \<Rightarrow> endTime b);
                 newRoom = (case upd_room body of Some r \<Rightarrow> r | None \<Rightarrow> room b)
             in if changesSlot body
                   \<and> checkOverlap s newRoom newStartTime newEndTime (Some (b_id b))
                then (Inl SlotTaken, s)
                else (Inr (applyUpdate body b),
                      s\<lparr>bookings := map (\<lambda>x. if b_id x = i then applyUpdate body x else x)
                                         (bookings s)\<rparr>)))"

text \<open>
  An update writes only what it scanned when every slot field it writes is one the
  handler read: no operator writes a slot field and no date is the number 0.
\<close>

definition writesUnscanned :: "update_body \<Rightarrow> bool" where
  "writesUnscanned body \<longleftrightarrow>
     writtenStartTime body \<noteq> bodyStartTime body
   \<or> writtenEndTime body \<noteq> bodyEndTime body
   \<or> writtenRoom body \<noteq> upd_room body"

subsection \<open>cancelBooking and deleteBooking\<close>

definition cancelBooking :: "db \<Rightarrow> instant \<Rightarrow> user \<Rightarrow> oid \<Rightarrow> string \<Rightarrow> (failure + booking) \<times> db" where
  \<comment> \<open>the booking is loaded with \<open>populate('room bookedBy attendees')\<close>\<close>
  "cancelBooking s now u i reason =
     (case findBooking s i of
        None \<Rightarrow> (Inl BookingNotFound, s)
      | Some b \<Rightarrow>
          if u_role u \<noteq> Admin \<and> bookedBy b \<noteq> u_id u then (Inl NotAuthorized, s)
          else
            (case Booking_save (markCancelled u now reason b) s of
               Inl e \<Rightarrow> (Inl (Uncaught e), s)
             | Inr s1 \<Rightarrow>
                (let roomOk = (findRoom s1 (room b) \<noteq> None);
                     s2 = (if roomOk
                           then Notification_create
                                  \<lparr>n_user = bookedBy b,
                                   n_type = (if u_role u = Admin then admin_override
                                             else booking_cancelled),
                                   n_booking = Some (b_id b), n_room = Some (room b)\<rparr> s1
                           else s1);
                     s3 = (if u_role u \<noteq> Admin \<and> roomOk
                           then notifyAdminsOfUserAction (Some (b_id b)) (Some (room b)) u s2
                           else s2);
                     s4 = notifyAttendeesOfMeetingUpdate b True
                            (if roomOk then Some (room b) else None) u s3
                 in (Inr (markCancelled u now reason b), s4))))"

definition deleteBooking :: "db \<Rightarrow> instant \<Rightarrow> oid \<Rightarrow> (failure + unit) \<times> db" where
  "deleteBooking s now i =
     (case findBooking s i of
        None \<Rightarrow> (Inl BookingNotFound, s)
      | Some b \<Rightarrow>
          (let isPastBooking = (endTime b < now);
               isCancelled = (status b = Cancelled)
           in if \<not> isPastBooking \<and> \<not> isCancelled then (Inl ActiveUpcoming, s)
              else (Inr (), s\<lparr>bookings := filter (\<lambda>x. b_id x \<noteq> i) (bookings s)\<rparr>)))"

section \<open>roomController: deleteRoom\<close>

definition roomDeletedReason :: "room_doc \<Rightarrow> string" where
  "roomDeletedReason r =
     ''Room '' @ [CHR 0x22] @ r_name r @ [CHR 0x22] @ '' has been deleted by administrator''"

definition roomDeletedNotification :: "booking \<Rightarrow> oid \<Rightarrow> notification" where
  \<comment> \<open>'Room Deleted - Booking Cancelled', to the organizer and to each attendee\<close>
  "roomDeletedNotification b recipient =
     \<lparr>n_user = recipient, n_type = room_deleted, n_booking = Some (b_id b), n_room = None\<rparr>"


fun cancelFutureBookings ::
  "user \<Rightarrow> instant \<Rightarrow> string \<Rightarrow> booking list \<Rightarrow> db \<Rightarrow> exn option \<times> db" where
  "cancelFutureBookings u now reason [] s = (None, s)"
| "cancelFutureBookings u now reason (b # rest) s =
     (case Booking_save (markCancelled u now reason b) s of
        Inl e \<Rightarrow> (Some e, s)
      | Inr s1 \<Rightarrow>
          (let s2 = Notification_create (roomDeletedNotification b (bookedBy b)) s1;
               s3 = fold (\<lambda>attendee. Notification_create (roomDeletedNotification b attendee))
                         (attendees b) s2
           in cancelFutureBookings u now reason rest s3))"

definition deleteRoom :: "db \<Rightarrow> instant \<Rightarrow> user \<Rightarrow> oid \<Rightarrow> (failure + nat) \<times> db" where
  \<comment> \<open>the result of a success is the count \<open>cancelledBookings\<close>\<close>
  "deleteRoom s now u i =
     (case findRoom s i of
        None \<Rightarrow> (Inl RoomNotFound, s)
      | Some r \<Rightarrow>
          (let allBookings = filter (\<lambda>b. room b = i \<and> status b = Confirmed) (bookings s);
               futureBookings = filter (\<lambda>b. startTime b \<ge> now) allBookings
           in case cancelFutureBookings u now (roomDeletedReason r) futureBookings s of
                (Some e, s1) \<Rightarrow> (Inl (Uncaught e), s1)
              | (None, s1) \<Rightarrow>
                  (let s2 = notifyAdminsOfRoomAction i u s1
                   in (Inr (length futureBookings),
                       s2\<lparr>rooms := filter (\<lambda>x. r_id x \<noteq> i) (rooms s2)\<rparr>))))"

section \<open>The route \<open>POST /api/bookings\<close>\<close>

text \<open>
  The body as it arrives. A date field is \<open>None\<close> when it is not an ISO 8601 string.
  The field \<open>attendees\<close> is missing (or another falsy value), or an array, or some
  other truthy value, of which only its \<open>length\<close> property matters, if it has one.
\<close>

datatype attendees_field =
  AttendeesMissing
  | AttendeesOther "nat option"
  | AttendeesArray "oid list"

record raw_request =
  raw_room :: "oid option"
  raw_title :: string
  raw_startTime :: "instant option"
  raw_endTime :: "instant option"
  raw_attendees :: attendees_field
  raw_isRecurring :: bool
  raw_recurrenceEndDate :: "instant option"

definition isWhitespace :: "char \<Rightarrow> bool" where
  "isWhitespace c \<longleftrightarrow> c = CHR '' '' \<or> c = CHR 0x09 \<or> c = CHR 0x0A \<or> c = CHR 0x0D"

definition attendeesCustom :: "nat \<Rightarrow> string list" where
  \<comment> \<open>the \<open>custom\<close> validator of \<open>attendees\<close> on a value with that \<open>length\<close>\<close>
  "attendeesCustom n =
     (if n = 0 then [''At least one attendee is required'']
      else if n > 50 then [''Too many attendees selected'']
      else [])"

definition bookingValidation :: "raw_request \<Rightarrow> string list" where
  \<comment> \<open>The messages of the validators that fail, in the order of the chain. Every
      validator of a chain runs: on \<open>attendees\<close> first \<open>isArray({ min: 1 })\<close>, then the
      \<open>custom\<close> one.\<close>
  "bookingValidation raw =
     (if raw_room raw = None then [''Room is required''] else [])
   @ (if list_all isWhitespace (raw_title raw) then [''Title is required''] else [])
   @ (if raw_startTime raw = None then [''Valid start time is required''] else [])
   @ (if raw_endTime raw = None then [''Valid end time is required''] else [])
   @ (case raw_attendees raw of
        AttendeesMissing \<Rightarrow>
          [''At least one attendee is required'', ''At least one attendee is required'']
      | AttendeesOther len \<Rightarrow>
          ''At least one attendee is required''
          # (case len of None \<Rightarrow> [] | Some n \<Rightarrow> attendeesCustom n)
      | AttendeesArray atts \<Rightarrow>
          (if length atts < 1 then [''At least one attendee is required''] else [])
        @ attendeesCustom (length atts))
   @ (case (raw_startTime raw, raw_endTime raw) of
        (Some st, Some en) \<Rightarrow> if en \<le> st then [''End time must be after start time''] else []
      | _ \<Rightarrow> [])"

definition handleValidationErrors :: "string list \<Rightarrow> failure option" where
  \<comment> \<open>Modelled from the spec: \<open>middleware/validation.js\<close> is not among the sources.
      Validation errors are returned to the caller before any write: the request is
      rejected as soon as one validator reported an error.\<close>
  "handleValidationErrors errors = (if errors = [] then None else Some (InvalidRequest errors))"

definition requestBody :: "raw_request \<Rightarrow> oid \<Rightarrow> instant \<Rightarrow> instant \<Rightarrow> booking_request" where
  \<comment> \<open>\<open>req.body\<close> as the handler reads it, once room and dates are known to be there\<close>
  "requestBody raw r st en =
     \<lparr>req_room = r, req_startTime = st, req_endTime = en,
      req_attendees = (case raw_attendees raw of AttendeesArray atts \<Rightarrow> Some atts | _ \<Rightarrow> None),
      req_isRecurring = raw_isRecurring raw,
      req_recurrenceEndDate = raw_recurrenceEndDate raw\<rparr>"

definition postBooking ::
  "zone \<Rightarrow> db \<Rightarrow> instant \<Rightarrow> user \<Rightarrow> raw_request \<Rightarrow> ((failure + booking) \<times> db) option" where
  \<comment> \<open>\<open>router.route('/').post(protect, bookingValidation, createBooking)\<close>; the actor is
      the user \<open>protect\<close> resolved\<close>
  "postBooking z s now u raw =
     (case handleValidationErrors (bookingValidation raw) of
        Some f \<Rightarrow> Some (Inl f, s)
      | None \<Rightarrow>
          (case (raw_room raw, raw_startTime raw, raw_endTime raw) of
             (Some r, Some st, Some en) \<Rightarrow> createBooking z s now u (requestBody raw r st en)
           | _ \<Rightarrow> Some (Inl (InvalidRequest []), s)))"

section \<open>Requests in flight\<close>

text \<open>
  A request handler runs until its next \<open>await\<close> and then yields; other requests run
  in between. The create handler is cut once, between its checks and its writes: a
  request has arrived, or has passed the checks, or has been answered.
\<close>

datatype progress = Arrived | Checked "oid list" | Answered "failure + booking"

record task =
  t_user :: user
  t_req :: booking_request
  t_progress :: progress

definition stepTask :: "zone \<Rightarrow> instant \<Rightarrow> task \<Rightarrow> db \<Rightarrow> (task \<times> db) option" where
  "stepTask z now t s =
     (case t_progress t of
        Arrived \<Rightarrow>
          (case createBooking_check z s (t_user t) (t_req t) of
             None \<Rightarrow> None
           | Some (Inl f) \<Rightarrow> Some (t\<lparr>t_progress := Answered (Inl f)\<rparr>, s)
           | Some (Inr atts) \<Rightarrow> Some (t\<lparr>t_progress := Checked atts\<rparr>, s))
      | Checked atts \<Rightarrow>
          (case createBooking_commit z s now (t_user t) (t_req t) atts of
             None \<Rightarrow> None
           | Some (r, s') \<Rightarrow> Some (t\<lparr>t_progress := Answered r\<rparr>, s'))
      | Answered r \<Rightarrow> Some (t, s))"

fun runSchedule ::
  "zone \<Rightarrow> instant \<Rightarrow> nat list \<Rightarrow> task list \<Rightarrow> db \<Rightarrow> (task list \<times> db) option" where
  "runSchedule z now [] ts s = Some (ts, s)"
| "runSchedule z now (i # schedule) ts s =
     (if i < length ts then
        (case stepTask z now (ts ! i) s of
           None \<Rightarrow> None
         | Some (t', s') \<Rightarrow> runSchedule z now schedule (ts[i := t']) s')
      else runSchedule z now schedule ts s)"

section \<open>Invariants\<close>

definition conflict :: "booking \<Rightarrow> booking \<Rightarrow> bool" where
  "conflict a b \<longleftrightarrow>
     room a = room b \<and> status a = Confirmed \<and> status b = Confirmed
   \<and> overlaps (startTime a) (endTime a) (startTime b) (endTime b)"

definition noDoubleBooking :: "db \<Rightarrow> bool" where
  \<comment> \<open>no two stored bookings (two documents, so two ids) conflict\<close>
  "noDoubleBooking s \<longleftrightarrow>
     (\<forall>a \<in> set (bookings s). \<forall>b \<in> set (bookings s). b_id a \<noteq> b_id b \<longrightarrow> \<not> conflict a b)"

definition wellFormed :: "db \<Rightarrow> bool" where
  \<comment> \<open>what the id counter and the schema of \<open>RecurrenceGroup\<close> guarantee\<close>
  "wellFormed s \<longleftrightarrow>
     distinct (map b_id (bookings s))
   \<and> (\<forall>b \<in> set (bookings s). b_id b < next_id s)
   \<and> (\<forall>g \<in> set (groups s). 0 \<le> dayOfWeek g \<and> dayOfWeek g \<le> 6)"


section \<open>Requests one at a time\<close>

text \<open>
  The operations of the booking lifecycle, each run from its first statement to its
  response before the next one starts.
\<close>

datatype operation =
  Create user booking_request
  | Update user oid update_body
  | Cancel user oid string
  | Delete oid
  | DeleteRoom user oid

fun perform :: "zone \<Rightarrow> db \<Rightarrow> instant \<Rightarrow> operation \<Rightarrow> db option" where
  "perform z s now (Create u req) = map_option snd (createBooking z s now u req)"
| "perform z s now (Update u i body) = Some (snd (updateBooking s u i body))"
| "perform z s now (Cancel u i reason) = Some (snd (cancelBooking s now u i reason))"
| "perform z s now (Delete i) = Some (snd (deleteBooking s now i))"
| "perform z s now (DeleteRoom u i) = Some (snd (deleteRoom s now u i))"

fun performAll :: "zone \<Rightarrow> db \<Rightarrow> (instant \<times> operation) list \<Rightarrow> db option" where
  "performAll z s [] = Some s"
| "performAll z s ((now, op) # ops) =
     (case perform z s now op of None \<Rightarrow> None | Some s' \<Rightarrow> performAll z s' ops)"

fun unscannedWrite :: "operation \<Rightarrow> bool" where
  \<comment> \<open>an update that writes a slot field the handler did not scan, or that writes
      \<open>status: 'confirmed'\<close>\<close>
  "unscannedWrite (Update u i body) =
     (writesUnscanned body \<or> writtenStatus body = Some Confirmed)"
| "unscannedWrite _ = False"

section \<open>Example data\<close>

text \<open>
  A small store for the worked examples: room 1 holds bookings at 10:00-11:00,
  14:00-15:00 and 15:00-16:00 of the first day, room 2 one at 10:00-11:40. Instants are
  written as multiples of \<open>minute_ms\<close>; the examples on this store run on a host in UTC.
\<close>

definition adminUser :: user where
  "adminUser = \<lparr>u_id = 100, u_role = Admin\<rparr>"

definition memberUser :: user where
  "memberUser = \<lparr>u_id = 7, u_role = Member\<rparr>"

definition confirmedBooking :: "oid \<Rightarrow> oid \<Rightarrow> instant \<Rightarrow> instant \<Rightarrow> booking" where
  "confirmedBooking i r st en =
     \<lparr>b_id = i, room = r, bookedBy = 7, startTime = st, endTime = en, attendees = [8, 9],
      recurrenceGroup = None, status = Confirmed, cancelledBy = None,
      cancellationReason = None, cancelledAt = None\<rparr>"

definition exampleDb :: db where
  "exampleDb =
     \<lparr>rooms = [\<lparr>r_id = 1, r_name = ''Atlas'', capacity = 4\<rparr>,
               \<lparr>r_id = 2, r_name = ''Boreas'', capacity = 2\<rparr>],
      bookings = [confirmedBooking 10 1 (600 * minute_ms) (660 * minute_ms),
                  confirmedBooking 11 1 (840 * minute_ms) (900 * minute_ms),
                  confirmedBooking 12 1 (900 * minute_ms) (960 * minute_ms),
                  confirmedBooking 13 2 (600 * minute_ms) (700 * minute_ms)],
      groups = [], notifications = [], admins = [100], next_id = 20\<rparr>"

definition noonRequest :: booking_request where
  \<comment> \<open>room 1, 12:00-13:00 of the first day, two attendees, not recurring\<close>
  "noonRequest =
     \<lparr>req_room = 1, req_startTime = 720 * minute_ms, req_endTime = 780 * minute_ms,
      req_attendees = Some [8, 9], req_isRecurring = False, req_recurrenceEndDate = None\<rparr>"

definition otherMember :: user where
  "otherMember = \<lparr>u_id = 8, u_role = Member\<rparr>"

definition arrived :: "user \<Rightarrow> booking_request \<Rightarrow> task" where
  "arrived u req = \<lparr>t_user = u, t_req = req, t_progress = Arrived\<rparr>"

definition weeklyRequest :: booking_request where
  \<comment> \<open>room 1, 10:30-11:30 every week from the first day, until the ninth day\<close>
  "weeklyRequest =
     \<lparr>req_room = 1, req_startTime = 630 * minute_ms, req_endTime = 690 * minute_ms,
      req_attendees = Some [8, 9], req_isRecurring = True,
      req_recurrenceEndDate = Some (8 * day_ms)\<rparr>"

definition weeklyNoonRequest :: booking_request where
  \<comment> \<open>room 1, 12:00-13:00 every week from the first day, until 13:00 of day 21\<close>
  "weeklyNoonRequest =
     noonRequest\<lparr>req_isRecurring := True,
                 req_recurrenceEndDate := Some (21 * day_ms + 780 * minute_ms)\<rparr>"

definition fourWeeksDb :: db where
  \<comment> \<open>the example store with one more booking of room 1: 12:00-13:00 of day 14\<close>
  "fourWeeksDb =
     exampleDb\<lparr>bookings := bookings exampleDb
        @ [confirmedBooking 14 1 (14 * day_ms + 720 * minute_ms) (14 * day_ms + 780 * minute_ms)]\<rparr>"

definition stateAfter :: "((failure + booking) \<times> db) option \<Rightarrow> db \<Rightarrow> db" where
  \<comment> \<open>the store a request leaves behind (the second argument if it never answers)\<close>
  "stateAfter result s = (case result of Some (r, s') \<Rightarrow> s' | None \<Rightarrow> s)"

definition weeklyNoonDb :: db where
  \<comment> \<open>the example store after the administrator's weekly noon request\<close>
  "weeklyNoonDb =
     stateAfter (createBooking utcZone exampleDb 0 adminUser weeklyNoonRequest) exampleDb"

definition freedNoonDb :: db where
  \<comment> \<open>then the first occurrence (booking 21, 12:00-13:00 of the first day) is cancelled\<close>
  "freedNoonDb = snd (cancelBooking weeklyNoonDb 9 adminUser 21 ''freed'')"

definition emptyBody :: update_body where
  "emptyBody =
     \<lparr>upd_startTime = None, upd_endTime = None, upd_room = None, upd_status = None,
      op_startTime = None, op_endTime = None, op_room = None, op_status = None\<rparr>"

definition moveToNoon :: update_body where
  \<comment> \<open>\<open>{ startTime: <12:00>, endTime: <13:00> }\<close>, both as date strings\<close>
  "moveToNoon =
     emptyBody\<lparr>upd_startTime := Some (DateString (720 * minute_ms)),
               upd_endTime := Some (DateString (780 * minute_ms))\<rparr>"

definition moveToFour :: update_body where
  \<comment> \<open>\<open>{ startTime: <16:00>, endTime: <17:00> }\<close>, both as date strings\<close>
  "moveToFour =
     emptyBody\<lparr>upd_startTime := Some (DateString (960 * minute_ms)),
               upd_endTime := Some (DateString (1020 * minute_ms))\<rparr>"

definition hallDb :: db where
  \<comment> \<open>the example store with a third room that holds 100 people\<close>
  "hallDb = exampleDb\<lparr>rooms := rooms exampleDb @ [\<lparr>r_id = 3, r_name = ''Hall'', capacity = 100\<rparr>]\<rparr>"

definition crowdedRaw :: raw_request where
  \<comment> \<open>the hall at 12:00-13:00 of the first day, with 51 attendees\<close>
  "crowdedRaw =
     \<lparr>raw_room = Some 3, raw_title = ''All hands'', raw_startTime = Some (720 * minute_ms),
      raw_endTime = Some (780 * minute_ms), raw_attendees = AttendeesArray [0..<51],
      raw_isRecurring = False, raw_recurrenceEndDate = None\<rparr>"

definition overnightRequest :: booking_request where
  \<comment> \<open>room 1, 23:00 of the first day to 01:00 of the second, every week, twice\<close>
  "overnightRequest =
     \<lparr>req_room = 1, req_startTime = 1380 * minute_ms, req_endTime = 1500 * minute_ms,
      req_attendees = Some [8, 9], req_isRecurring = True,
      req_recurrenceEndDate = Some (8 * day_ms)\<rparr>"



definition summerZone :: zone where
  \<comment> \<open>Central European time around the change of 2024-03-31: at 01:00 UTC the offset
      goes from one hour to two, and the local times from 02:00 to 03:00 are skipped\<close>
  "summerZone =
     \<lparr>offsetAt = (\<lambda>t. if t < 19813 * day_ms + hour_ms then hour_ms else 2 * hour_ms),
      offsetOfLocal = (\<lambda>t. if t < 19813 * day_ms + 3 * hour_ms then hour_ms else 2 * hour_ms)\<rparr>"

definition dateLineZone :: zone where
  \<comment> \<open>Pacific/Apia around 2011-12-30: at 10:00 UTC of that day the offset goes from
      ten hours behind UTC to fourteen hours ahead, and the local calendar day
      2011-12-30, a Friday, is skipped\<close>
  "dateLineZone =
     \<lparr>offsetAt = (\<lambda>t. if t < 15338 * day_ms + 10 * hour_ms then - 10 * hour_ms
                      else 14 * hour_ms),
      offsetOfLocal = (\<lambda>t. if t < 15339 * day_ms then - 10 * hour_ms else 14 * hour_ms)\<rparr>"

section \<open>The overlap predicate\<close>

lemma overlaps_imp_overlapQuery:
  "overlaps docStart docEnd st en \<Longrightarrow> overlapQuery docStart docEnd st en"
  unfolding overlapQuery_def startsDuring_def endsDuring_def containedBy_def containsAll_def
    overlaps_def
  by auto

lemma overlapQuery_imp_overlaps:
  "docStart < docEnd \<Longrightarrow> st < en \<Longrightarrow> overlapQuery docStart docEnd st en
     \<Longrightarrow> overlaps docStart docEnd st en"
  unfolding overlapQuery_def startsDuring_def endsDuring_def containedBy_def containsAll_def
    overlaps_def
  by auto

text \<open>
  Claim C3. For two intervals that each end strictly after they start, the disjunction
  of the four boundary cases of the overlap query (starts during, ends during,
  contained by, contains) holds exactly when \<open>aStart < bEnd\<close> and \<open>bStart < aEnd\<close>;
  intervals that only touch at an endpoint do not match the query.
\<close>

theorem four_cases_iff_two_inequalities:
  assumes "aStart < aEnd" and "bStart < bEnd"
  shows "((startsDuring aStart aEnd bStart \<or> endsDuring aStart aEnd bEnd
            \<or> containedBy aStart aEnd bStart bEnd \<or> containsAll aStart aEnd bStart bEnd)
          \<longleftrightarrow> aStart < bEnd \<and> bStart < aEnd)
       \<and> (overlapQuery aStart aEnd bStart bEnd \<longleftrightarrow> overlaps aStart aEnd bStart bEnd)
       \<and> (aEnd = bStart \<or> bEnd = aStart \<longrightarrow> \<not> overlapQuery aStart aEnd bStart bEnd)"
proof -
  have eq: "overlapQuery aStart aEnd bStart bEnd \<longleftrightarrow> overlaps aStart aEnd bStart bEnd"
    using assms overlaps_imp_overlapQuery overlapQuery_imp_overlaps by blast
  have touch: "aEnd = bStart \<or> bEnd = aStart \<longrightarrow> \<not> overlaps aStart aEnd bStart bEnd"
    by (auto simp: overlaps_def)
  show ?thesis
    using eq touch by (simp add: overlapQuery_def overlaps_def)
qed

theorem four_cases_iff_two_inequalities_witness:
  "(9::int) < 11 \<and> (10::int) < 12
   \<and> overlapQuery 9 11 10 12 \<and> overlaps 9 11 10 12
   \<and> \<not> overlapQuery 9 10 10 12 \<and> \<not> overlapQuery 10 12 9 10"
  using four_cases_iff_two_inequalities [of 9 11 10 12]
    four_cases_iff_two_inequalities [of 9 10 10 12]
    four_cases_iff_two_inequalities [of 10 12 9 10]
  by (simp add: overlaps_def)


section \<open>The recurrence expander\<close>

lemma localTime_bounds:
  "regularZone z \<Longrightarrow> t - day_ms \<le> localTime z t \<and> localTime z t \<le> t + day_ms"
  unfolding regularZone_def localTime_def
  by (elim conjE, drule_tac x = t in spec) linarith

lemma utcTime_bounds:
  "regularZone z \<Longrightarrow> t - day_ms \<le> utcTime z t \<and> utcTime z t \<le> t + day_ms"
  unfolding regularZone_def utcTime_def
  by (elim conjE, drule_tac x = t in spec, drule_tac x = t in spec) linarith

lemma localDay_utcTime: "regularZone z \<Longrightarrow> localDay z (utcTime z t) = t div day_ms"
  by (simp add: regularZone_def)

lemma localDay_addDays: "regularZone z \<Longrightarrow> localDay z (addDays z t n) = localDay z t + n"
  by (simp add: addDays_def localDay_utcTime) (simp add: localDay_def day_ms_def)

lemma addDays_bounds:
  assumes "regularZone z"
  shows "t + n * day_ms - 2 * day_ms \<le> addDays z t n
       \<and> addDays z t n \<le> t + n * day_ms + 2 * day_ms"
  using localTime_bounds[OF assms, of t] utcTime_bounds[OF assms, of "localTime z t + n * day_ms"]
  by (simp add: addDays_def)

lemma addDays_7_later: "regularZone z \<Longrightarrow> t + 5 * day_ms \<le> addDays z t 7"
  using addDays_bounds[of z t 7] by simp

lemma getDay_range: "0 \<le> getDay z t \<and> getDay z t < 7"
  by (simp add: getDay_def)

lemma getDay_addDays: "regularZone z \<Longrightarrow> getDay z (addDays z t n) = (getDay z t + n) mod 7"
  by (simp add: getDay_def localDay_addDays mod_simps add.commute add.left_commute)

lemma getDay_addDays_7: "regularZone z \<Longrightarrow> getDay z (addDays z t 7) = getDay z t"
  using getDay_range[of z t] by (simp add: getDay_addDays)

lemma same_day: "q * day_ms \<le> t \<Longrightarrow> t < (q + 1) * day_ms \<Longrightarrow> t div day_ms = q"
proof -
  assume a: "q * day_ms \<le> t" "t < (q + 1) * day_ms"
  have "t = day_ms * q + (t - q * day_ms)" by simp
  moreover have "0 \<le> t - q * day_ms" using a by simp
  moreover have "t - q * day_ms < day_ms" using a by (simp add: algebra_simps)
  ultimately show ?thesis by (metis int_div_pos_eq)
qed

lemma utcZone_regular: "regularZone utcZone"
  by (simp add: regularZone_def utcZone_def localDay_def localTime_def utcTime_def day_ms_def)

lemma summerZone_regular: "regularZone summerZone"
proof -
  have "localDay summerZone (utcTime summerZone t) = t div day_ms" for t
  proof -
    consider "t < 19813 * day_ms + 2 * hour_ms"
      | "19813 * day_ms + 2 * hour_ms \<le> t" "t < 19813 * day_ms + 3 * hour_ms"
      | "19813 * day_ms + 3 * hour_ms \<le> t" by linarith
    then show ?thesis
    proof cases
      case 1
      then show ?thesis
        by (simp add: summerZone_def localDay_def localTime_def utcTime_def hour_ms_def day_ms_def)
    next
      case 2
      then have "(t + hour_ms) div day_ms = 19813" "t div day_ms = 19813"
        by (auto intro!: same_day simp: hour_ms_def day_ms_def)
      with 2 show ?thesis
        by (simp add: summerZone_def localDay_def localTime_def utcTime_def hour_ms_def day_ms_def)
    next
      case 3
      then show ?thesis
        by (simp add: summerZone_def localDay_def localTime_def utcTime_def hour_ms_def day_ms_def)
    qed
  qed
  then show ?thesis
    by (simp add: regularZone_def) (simp add: summerZone_def hour_ms_def day_ms_def)
qed

lemma wd_zero: "0 \<le> (w::int) \<Longrightarrow> w < 7 \<Longrightarrow> 0 \<le> g \<Longrightarrow> g < 7 \<Longrightarrow> (w - g) mod 7 = 0 \<Longrightarrow> g = w"
  by presburger

lemma wd_step: "0 \<le> (w::int) \<Longrightarrow> w < 7 \<Longrightarrow> 0 \<le> g \<Longrightarrow> g < 7 \<Longrightarrow> (w - g) mod 7 \<noteq> 0 \<Longrightarrow>
   (w - (g + 1) mod 7) mod 7 = (w - g) mod 7 - 1"
proof -
  assume a: "0 \<le> w" "w < 7" "0 \<le> g" "g < 7" "(w - g) mod 7 \<noteq> 0"
  have "(w - (g + 1) mod 7) mod 7 = (w - (g + 1)) mod 7"
    by (simp add: mod_diff_right_eq)
  also have "\<dots> = ((w - g) mod 7 - 1) mod 7"
    by (simp add: mod_diff_left_eq algebra_simps)
  also have "\<dots> = (w - g) mod 7 - 1"
  proof -
    have "0 \<le> (w - g) mod 7" "(w - g) mod 7 < 7" by simp_all
    with a(5) have "0 \<le> (w - g) mod 7 - 1" "(w - g) mod 7 - 1 < 7" by linarith+
    then show ?thesis by (rule mod_pos_pos_trivial)
  qed
  finally show ?thesis .
qed

lemma funpow_addDays_day:
  "regularZone z \<Longrightarrow> localDay z (((\<lambda>t. addDays z t 1) ^^ n) c) = localDay z c + int n"
  by (induction n) (simp_all add: localDay_addDays)

lemma firstOccurrence_closed:
  assumes "regularZone z" "0 \<le> w" "w < 7"
  shows "firstOccurrence z c w
           = Some (((\<lambda>t. addDays z t 1) ^^ nat ((w - getDay z c) mod 7)) c)"
proof (induction n \<equiv> "nat ((w - getDay z c) mod 7)" arbitrary: c)
  case 0
  then have "(w - getDay z c) mod 7 = 0" by simp
  then have eq: "getDay z c = w"
    by (rule wd_zero[OF assms(2,3) conjunct1[OF getDay_range] conjunct2[OF getDay_range]])
  have "firstOccurrence z c w = Some c"
    by (subst firstOccurrence.simps) (simp only: eq simp_thms if_False)
  then show ?case using 0 by simp
next
  case (Suc n)
  have r: "0 \<le> getDay z c \<and> getDay z c < 7" by (rule getDay_range)
  from Suc.hyps(2) have pos: "(w - getDay z c) mod 7 = int (Suc n)" by linarith
  then have ne: "getDay z c \<noteq> w" by auto
  have step: "(w - getDay z (addDays z c 1)) mod 7 = (w - getDay z c) mod 7 - 1"
    unfolding getDay_addDays[OF assms(1)] using wd_step[of w "getDay z c"] assms r pos by simp
  then have n: "n = nat ((w - getDay z (addDays z c 1)) mod 7)" using pos by simp
  from Suc.hyps(1)[OF n]
  have "firstOccurrence z (addDays z c 1) w = Some (((\<lambda>t. addDays z t 1) ^^ n) (addDays z c 1))"
    using n by simp
  moreover have "firstOccurrence z c w = firstOccurrence z (addDays z c 1) w"
    by (subst firstOccurrence.simps) (simp only: ne simp_thms if_True)
  moreover have "nat ((w - getDay z c) mod 7) = Suc n" using pos by simp
  ultimately show ?case
    using funpow_swap1[of "\<lambda>t. addDays z t 1" n c] by simp
qed

lemma firstOccurrence_own_day: "firstOccurrence z c (getDay z c) = Some c"
  by (subst firstOccurrence.simps) simp

lemma allOccurrences_stop: "e < c \<Longrightarrow> allOccurrences z c e = Some []"
  by (subst allOccurrences.simps) simp

lemma allOccurrences_step:
  "c \<le> e \<Longrightarrow> allOccurrences z c e
     = Option.bind (allOccurrences z (addDays z c 7) e) (\<lambda>dates. Some (c # dates))"
  by (subst allOccurrences.simps) simp

lemma allOccurrences_weekly:
  assumes reg: "regularZone z"
  shows "\<exists>dates. allOccurrences z c e = Some dates
         \<and> (dates = [] \<longleftrightarrow> e < c)
         \<and> (dates \<noteq> [] \<longrightarrow> hd dates = c)
         \<and> (\<forall>d \<in> set dates. d \<le> e \<and> c \<le> d \<and> getDay z d = getDay z c)
         \<and> (\<forall>i. Suc i < length dates \<longrightarrow> dates ! Suc i = addDays z (dates ! i) 7)
         \<and> (dates \<noteq> [] \<longrightarrow> e < addDays z (last dates) 7)
         \<and> sorted_wrt (<) dates"
proof (induction "nat (e - c + 1)" arbitrary: c rule: less_induct)
  case less
  show ?case
  proof (cases "c \<le> e")
    case False
    then have "allOccurrences z c e = Some []" by (simp add: allOccurrences_stop)
    then show ?thesis using False by simp
  next
    case True
    let ?c' = "addDays z c 7"
    have far: "c + 5 * day_ms \<le> ?c'" by (rule addDays_7_later[OF reg])
    then have later: "c < ?c'" by (simp add: day_ms_def)
    have gd: "getDay z ?c' = getDay z c" by (rule getDay_addDays_7[OF reg])
    have "nat (e - ?c' + 1) < nat (e - c + 1)"
      using True later by simp
    from less[OF this] obtain dates
      where w0: "allOccurrences z ?c' e = Some dates"
        and w1: "dates = [] \<longleftrightarrow> e < ?c'"
        and w2: "dates \<noteq> [] \<longrightarrow> hd dates = ?c'"
        and w3: "\<forall>d \<in> set dates. d \<le> e \<and> ?c' \<le> d \<and> getDay z d = getDay z ?c'"
        and w4: "\<forall>i. Suc i < length dates \<longrightarrow> dates ! Suc i = addDays z (dates ! i) 7"
        and w5: "dates \<noteq> [] \<longrightarrow> e < addDays z (last dates) 7"
        and w6: "sorted_wrt (<) dates"
      by (elim exE conjE)
    have r0: "allOccurrences z c e = Some (c # dates)"
      using True w0 by (simp add: allOccurrences_step)
    have r1: "(c # dates = [] \<longleftrightarrow> e < c)" using True by simp
    have r2: "c # dates \<noteq> [] \<longrightarrow> hd (c # dates) = c" by simp
    have r3: "\<forall>d \<in> set (c # dates). d \<le> e \<and> c \<le> d \<and> getDay z d = getDay z c"
      using w3 True later gd by auto
    have r4: "\<forall>i. Suc i < length (c # dates)
                \<longrightarrow> (c # dates) ! Suc i = addDays z ((c # dates) ! i) 7"
    proof (intro allI impI)
      fix i assume i: "Suc i < length (c # dates)"
      show "(c # dates) ! Suc i = addDays z ((c # dates) ! i) 7"
      proof (cases i)
        case 0
        with i have "dates \<noteq> []" by auto
        with w2 have "dates ! 0 = ?c'" by (simp add: hd_conv_nth)
        with 0 show ?thesis by simp
      next
        case (Suc j)
        with i w4 show ?thesis by simp
      qed
    qed
    have r5: "c # dates \<noteq> [] \<longrightarrow> e < addDays z (last (c # dates)) 7"
      using w1 w5 by simp
    have r6: "sorted_wrt (<) (c # dates)" using w3 w6 later by auto
    show ?thesis
      by (intro exI [of _ "c # dates"] conjI r0 r1 r2 r3 r4 r5 r6)
  qed
qed

lemma generateRecurringDates_Some:
  assumes "regularZone z" "0 \<le> w" "w \<le> 6"
  shows "\<exists>dates. generateRecurringDates z a e w = Some dates"
proof -
  have "w < 7" using assms by simp
  from firstOccurrence_closed[OF assms(1,2) this]
  obtain c where "firstOccurrence z a w = Some c" by blast
  moreover from allOccurrences_weekly[OF assms(1)]
  obtain dates where "allOccurrences z c e = Some dates" by blast
  ultimately show ?thesis by (simp add: generateRecurringDates_def)
qed

text \<open>
  Claim C7, for a host in a regular zone. For a weekday \<open>w\<close> in 0..6 the expander
  returns a list of dates. The anchor is advanced day by day, \<open>k < 7\<close> times, to the
  first date: it lies \<open>k\<close> calendar days after the anchor and falls on weekday \<open>w\<close>,
  and no earlier day from the anchor's on does. The list starts with the first date
  and is empty exactly when the first date is after the end date; every element falls
  on weekday \<open>w\<close> and is not after the end date; each element is its predecessor
  advanced by 7 calendar days; the list goes on as long as it can (the last element
  advanced by 7 days is after the end date); it is strictly ascending. The expander is
  a function of its arguments, so equal arguments give equal lists.
\<close>

theorem generateRecurringDates_weekly:
  assumes "regularZone z" and "0 \<le> w" and "w \<le> 6"
  shows "\<exists>k first dates.
           generateRecurringDates z a e w = Some dates
         \<and> 0 \<le> k \<and> k < 7
         \<and> first = ((\<lambda>t. addDays z t 1) ^^ nat k) a
         \<and> localDay z first = localDay z a + k
         \<and> getDay z first = w
         \<and> (\<forall>j. 0 \<le> j \<and> j < k \<longrightarrow> getDay z (addDays z a j) \<noteq> w)
         \<and> (dates = [] \<longleftrightarrow> e < first)
         \<and> (dates \<noteq> [] \<longrightarrow> hd dates = first)
         \<and> (\<forall>d \<in> set dates. getDay z d = w \<and> d \<le> e)
         \<and> (\<forall>i. Suc i < length dates \<longrightarrow>
                dates ! Suc i = addDays z (dates ! i) 7
              \<and> localDay z (dates ! Suc i) = localDay z (dates ! i) + 7)
         \<and> (dates \<noteq> [] \<longrightarrow> e < addDays z (last dates) 7)
         \<and> sorted_wrt (<) dates"
proof -
  define k where "k = (w - getDay z a) mod 7"
  define first where "first = ((\<lambda>t. addDays z t 1) ^^ nat k) a"
  have reg: "regularZone z" by (rule assms(1))
  have w7: "w < 7" using assms by simp
  have k_range: "0 \<le> k" "k < 7" by (simp_all add: k_def)
  have fo: "firstOccurrence z a w = Some first"
    by (simp add: firstOccurrence_closed[OF reg assms(2) w7] k_def first_def)
  from allOccurrences_weekly[OF reg, of first e] obtain dates
    where w0: "allOccurrences z first e = Some dates"
      and w1: "dates = [] \<longleftrightarrow> e < first"
      and w2: "dates \<noteq> [] \<longrightarrow> hd dates = first"
      and w3: "\<forall>d \<in> set dates. d \<le> e \<and> first \<le> d \<and> getDay z d = getDay z first"
      and w4: "\<forall>i. Suc i < length dates \<longrightarrow> dates ! Suc i = addDays z (dates ! i) 7"
      and w5: "dates \<noteq> [] \<longrightarrow> e < addDays z (last dates) 7"
      and w6: "sorted_wrt (<) dates"
    by (elim exE conjE)
  have gen: "generateRecurringDates z a e w = Some dates"
    by (simp add: generateRecurringDates_def fo w0)
  have day_first: "localDay z first = localDay z a + k"
    using k_range by (simp add: first_def funpow_addDays_day[OF reg])
  have wd_first: "getDay z first = w"
  proof -
    have "getDay z first = (localDay z a + 4 + k) mod 7"
      by (simp add: getDay_def day_first add.commute add.left_commute)
    also have "\<dots> = (getDay z a + k) mod 7"
      by (simp add: getDay_def mod_add_left_eq)
    also have "\<dots> = (getDay z a + (w - getDay z a) mod 7) mod 7"
      by (simp add: k_def)
    also have "\<dots> = (getDay z a + (w - getDay z a)) mod 7"
      by (simp add: mod_add_right_eq)
    also have "\<dots> = w" using assms by simp
    finally show ?thesis .
  qed
  have earliest: "\<forall>j. 0 \<le> j \<and> j < k \<longrightarrow> getDay z (addDays z a j) \<noteq> w"
  proof (intro allI impI notI)
    fix j assume j: "0 \<le> j \<and> j < k" and eq: "getDay z (addDays z a j) = w"
    have "(w - getDay z a) mod 7 = ((getDay z a + j) mod 7 - getDay z a) mod 7"
      using eq by (simp add: getDay_addDays[OF reg])
    also have "\<dots> = (getDay z a + j - getDay z a) mod 7"
      by (simp add: mod_diff_left_eq)
    also have "\<dots> = j" using j k_range by simp
    finally show False using j by (simp add: k_def)
  qed
  have every: "\<forall>d \<in> set dates. getDay z d = w \<and> d \<le> e"
    using w3 wd_first by simp
  have weekly: "\<forall>i. Suc i < length dates \<longrightarrow>
                  dates ! Suc i = addDays z (dates ! i) 7
                \<and> localDay z (dates ! Suc i) = localDay z (dates ! i) + 7"
    using w4 by (simp add: localDay_addDays[OF reg])
  show ?thesis
    by (intro exI [of _ k] exI [of _ first] exI [of _ dates] conjI gen k_range
        first_def day_first wd_first earliest w1 w2 every weekly w5 w6)
qed

theorem generateRecurringDates_weekly_witness:
  "regularZone summerZone \<and> (0::int) \<le> 5 \<and> (5::int) \<le> 6
   \<and> (\<exists>k first dates.
           generateRecurringDates summerZone (19802 * day_ms + 9 * hour_ms)
             (19825 * day_ms + 8 * hour_ms) 5 = Some dates
         \<and> 0 \<le> k \<and> k < 7
         \<and> first = ((\<lambda>t. addDays summerZone t 1) ^^ nat k) (19802 * day_ms + 9 * hour_ms)
         \<and> localDay summerZone first = localDay summerZone (19802 * day_ms + 9 * hour_ms) + k
         \<and> getDay summerZone first = 5
         \<and> (\<forall>j. 0 \<le> j \<and> j < k \<longrightarrow>
                getDay summerZone (addDays summerZone (19802 * day_ms + 9 * hour_ms) j) \<noteq> 5)
         \<and> (dates = [] \<longleftrightarrow> 19825 * day_ms + 8 * hour_ms < first)
         \<and> (dates \<noteq> [] \<longrightarrow> hd dates = first)
         \<and> (\<forall>d \<in> set dates. getDay summerZone d = 5 \<and> d \<le> 19825 * day_ms + 8 * hour_ms)
         \<and> (\<forall>i. Suc i < length dates \<longrightarrow>
                dates ! Suc i = addDays summerZone (dates ! i) 7
              \<and> localDay summerZone (dates ! Suc i) = localDay summerZone (dates ! i) + 7)
         \<and> (dates \<noteq> [] \<longrightarrow> 19825 * day_ms + 8 * hour_ms < addDays summerZone (last dates) 7)
         \<and> sorted_wrt (<) dates)"
  using generateRecurringDates_weekly
    [of summerZone 5 "19802 * day_ms + 9 * hour_ms" "19825 * day_ms + 8 * hour_ms"]
    summerZone_regular
  by simp

text \<open>
  The list of that example: Wednesday 2024-03-20, 10:00 local time, is advanced to
  Friday the 22nd, and the Fridays follow up to the end date, itself included. The
  clock change of 2024-03-31 lies between the second and the third date, which are 7
  calendar days but only 167 hours apart.
\<close>

lemma generateRecurringDates_example:
  "generateRecurringDates summerZone (19802 * day_ms + 9 * hour_ms)
     (19825 * day_ms + 8 * hour_ms) 5
   = Some [19804 * day_ms + 9 * hour_ms, 19811 * day_ms + 9 * hour_ms,
           19818 * day_ms + 8 * hour_ms, 19825 * day_ms + 8 * hour_ms]"
  by code_simp

lemma generateRecurringDates_utc_example:
  "generateRecurringDates utcZone 0 (15 * day_ms) 1 = Some [4 * day_ms, 11 * day_ms]"
  by code_simp

text \<open>
  Claim C7 as stated, for every host. On a host in the zone of Pacific/Apia the
  calendar day 2011-12-30, a Friday, does not exist. A weekly expansion for Fridays
  (weekday 5) anchored on Friday 2011-12-23, 12:00 local time, steps onto the skipped
  day, which the date arithmetic resolves to Saturday the 31st: the second and the
  third element fall on weekday 6, and the second lies 8 calendar days after the first.
\<close>

theorem generateRecurringDates_skipped_day:
  "generateRecurringDates dateLineZone (15331 * day_ms + 22 * hour_ms) (15350 * day_ms) 5
     = Some [15331 * day_ms + 22 * hour_ms, 15338 * day_ms + 22 * hour_ms,
             15345 * day_ms + 22 * hour_ms]
   \<and> getDay dateLineZone (15331 * day_ms + 22 * hour_ms) = 5
   \<and> getDay dateLineZone (15338 * day_ms + 22 * hour_ms) = 6
   \<and> getDay dateLineZone (15345 * day_ms + 22 * hour_ms) = 6
   \<and> localDay dateLineZone (15338 * day_ms + 22 * hour_ms)
       = localDay dateLineZone (15331 * day_ms + 22 * hour_ms) + 8"
  by code_simp


section \<open>The override procedure\<close>

lemma markCancelled_simps [simp]:
  "b_id (markCancelled u now reason b) = b_id b"
  "room (markCancelled u now reason b) = room b"
  "bookedBy (markCancelled u now reason b) = bookedBy b"
  "startTime (markCancelled u now reason b) = startTime b"
  "endTime (markCancelled u now reason b) = endTime b"
  "attendees (markCancelled u now reason b) = attendees b"
  "status (markCancelled u now reason b) = Cancelled"
  "cancelledBy (markCancelled u now reason b) = Some (u_id u)"
  "cancelledAt (markCancelled u now reason b) = Some now"
  "cancellationReason (markCancelled u now reason b) = Some reason"
  by (simp_all add: markCancelled_def)

lemma markCancelled_idem:
  "markCancelled u now reason (markCancelled u now reason b) = markCancelled u now reason b"
  by (simp add: markCancelled_def)

lemma replace_by_id:
  assumes "distinct (map b_id bs)" and "c \<in> set bs"
  shows "map (\<lambda>x. if b_id x = b_id c then f c else x) bs = map (\<lambda>x. if x = c then f x else x) bs"
proof (rule map_cong [OF refl])
  fix x assume "x \<in> set bs"
  with assms have "b_id x = b_id c \<longleftrightarrow> x = c"
    by (auto simp: distinct_map dest: inj_onD)
  then show "(if b_id x = b_id c then f c else x) = (if x = c then f x else x)" by auto
qed





lemma filter_map_none: "(\<And>x. \<not> P (f x)) \<Longrightarrow> filter P (map f xs) = []"
  by (induction xs) simp_all






section \<open>Deleting a room\<close>

lemma fold_Notification_create:
  "fold (\<lambda>a. Notification_create (f a)) as s = s\<lparr>notifications := notifications s @ map f as\<rparr>"
  by (induction as arbitrary: s) (simp_all add: Notification_create_def)







section \<open>Keeping rooms single-booked: auxiliary facts\<close>

lemma overlaps_sym: "overlaps a b c d \<longleftrightarrow> overlaps c d a b"
  by (auto simp: overlaps_def)

lemma conflict_sym: "conflict a b \<longleftrightarrow> conflict b a"
  by (auto simp: conflict_def overlaps_def)

lemma scanGroups_Some:
  assumes "regularZone z"
  shows "\<forall>g \<in> set gs. 0 \<le> dayOfWeek g \<and> dayOfWeek g \<le> 6 \<Longrightarrow> \<exists>h. scanGroups z gs st en = Some h"
proof (induction gs)
  case Nil
  show ?case by (simp add: exI [of _ False])
next
  case (Cons g gs)
  then have "0 \<le> dayOfWeek g" "dayOfWeek g \<le> 6" by simp_all
  from generateRecurringDates_Some [OF assms this] obtain dates
    where "generateRecurringDates z (startDate g) (endDate g) (dayOfWeek g) = Some dates"
    by blast
  with Cons show ?case by auto
qed

lemma checkOverlapWithRecurring_Some:
  assumes "regularZone z" and "wellFormed s"
  shows "\<exists>h. checkOverlapWithRecurring z s r st en x = Some h \<and> (checkOverlap s r st en x \<longrightarrow> h)"
proof -
  have "\<forall>g \<in> set (activeRecurrenceGroups s r st en). 0 \<le> dayOfWeek g \<and> dayOfWeek g \<le> 6"
    using assms(2) by (simp add: wellFormed_def activeRecurrenceGroups_def)
  from scanGroups_Some [OF assms(1) this] show ?thesis
    by (auto simp: checkOverlapWithRecurring_def)
qed

lemma conflictDates_Some:
  assumes "regularZone z" and "wellFormed s"
  shows "\<exists>cds. conflictDates z s r bst bet ds = Some cds
           \<and> (cds = [] \<longrightarrow> (\<forall>d \<in> set ds. \<not> checkOverlap s r (combineDateAndTime z d bst)
                                               (combineDateAndTime z d bet) None))"
proof (induction ds)
  case Nil
  then show ?case by simp
next
  case (Cons d ds)
  obtain h where h: "checkOverlapWithRecurring z s r (combineDateAndTime z d bst)
                       (combineDateAndTime z d bet) None = Some h"
      and imp: "checkOverlap s r (combineDateAndTime z d bst) (combineDateAndTime z d bet) None \<longrightarrow> h"
    using checkOverlapWithRecurring_Some [OF assms] by blast
  from Cons.IH obtain rest where rest: "conflictDates z s r bst bet ds = Some rest"
      and free: "rest = [] \<longrightarrow> (\<forall>d \<in> set ds. \<not> checkOverlap s r (combineDateAndTime z d bst)
                                               (combineDateAndTime z d bet) None)"
    by blast
  show ?case using h imp rest free by auto
qed


lemma Notification_create_fields [simp]:
  "bookings (Notification_create n s) = bookings s"
  "groups (Notification_create n s) = groups s"
  "rooms (Notification_create n s) = rooms s"
  "admins (Notification_create n s) = admins s"
  "next_id (Notification_create n s) = next_id s"
  by (simp_all add: Notification_create_def)

lemma Notification_insertMany_fields [simp]:
  "bookings (Notification_insertMany ns s) = bookings s"
  "groups (Notification_insertMany ns s) = groups s"
  "rooms (Notification_insertMany ns s) = rooms s"
  "admins (Notification_insertMany ns s) = admins s"
  "next_id (Notification_insertMany ns s) = next_id s"
  by (simp_all add: Notification_insertMany_def)

lemma notify_fields [simp]:
  "bookings (notifyAdminsOfUserAction bi ri u s) = bookings s"
  "groups (notifyAdminsOfUserAction bi ri u s) = groups s"
  "next_id (notifyAdminsOfUserAction bi ri u s) = next_id s"
  "bookings (notifyAttendeesOfMeeting b p u s) = bookings s"
  "groups (notifyAttendeesOfMeeting b p u s) = groups s"
  "next_id (notifyAttendeesOfMeeting b p u s) = next_id s"
  "bookings (notifyAttendeesOfMeetingUpdate b p rr u s) = bookings s"
  "groups (notifyAttendeesOfMeetingUpdate b p rr u s) = groups s"
  "next_id (notifyAttendeesOfMeetingUpdate b p rr u s) = next_id s"
  "bookings (notifyAdminsOfRoomAction rid u s) = bookings s"
  "groups (notifyAdminsOfRoomAction rid u s) = groups s"
  "next_id (notifyAdminsOfRoomAction rid u s) = next_id s"
  by (simp_all add: notifyAdminsOfUserAction_def notifyAttendeesOfMeeting_def
      notifyAttendeesOfMeetingUpdate_def notifyAdminsOfRoomAction_def)

lemma wellFormed_cong:
  "bookings s' = bookings s \<Longrightarrow> groups s' = groups s \<Longrightarrow> next_id s' = next_id s \<Longrightarrow>
   wellFormed s' = wellFormed s"
  by (simp add: wellFormed_def)

lemma noDoubleBooking_cong:
  "bookings s' = bookings s \<Longrightarrow> noDoubleBooking s' = noDoubleBooking s"
  by (simp add: noDoubleBooking_def)

lemma checkOverlap_cong:
  "bookings s' = bookings s \<Longrightarrow> checkOverlap s' = checkOverlap s"
  by (simp add: checkOverlap_def fun_eq_iff)

lemma checkOverlap_None:
  "checkOverlap s r st en None \<longleftrightarrow> (\<exists>b \<in> set (bookings s). overlapFilter r st en b)"
  by (simp add: checkOverlap_def list_ex_iff)

lemma wellFormed_map:
  assumes "wellFormed s" and "bookings s' = map f (bookings s)"
    and "\<And>x. b_id (f x) = b_id x" and "next_id s' = next_id s" and "groups s' = groups s"
  shows "wellFormed s'"
proof -
  have ids: "map b_id (bookings s') = map b_id (bookings s)"
    using assms(2,3) by simp
  have "\<forall>b \<in> set (bookings s'). b_id b < next_id s'"
    using assms(1,2,3,4) by (auto simp: wellFormed_def)
  then show ?thesis
    using assms(1,5) ids by (simp add: wellFormed_def)
qed

lemma noDoubleBooking_map:
  assumes "noDoubleBooking s" and "bookings s' = map f (bookings s)"
    and "\<And>x. b_id (f x) = b_id x"
    and "\<And>x y. x \<in> set (bookings s) \<Longrightarrow> y \<in> set (bookings s) \<Longrightarrow> b_id x \<noteq> b_id y
            \<Longrightarrow> conflict (f x) (f y) \<Longrightarrow> conflict x y"
  shows "noDoubleBooking s'"
  unfolding noDoubleBooking_def
proof (intro ballI impI)
  fix a b assume a: "a \<in> set (bookings s')" and b: "b \<in> set (bookings s')"
    and ne: "b_id a \<noteq> b_id b"
  from a b assms(2) obtain x y where x: "x \<in> set (bookings s)" "a = f x"
    and y: "y \<in> set (bookings s)" "b = f y" by auto
  from ne x y assms(3) have ne': "b_id x \<noteq> b_id y" by simp
  show "\<not> conflict a b"
  proof
    assume "conflict a b"
    with x y have "conflict (f x) (f y)" by simp
    from assms(4) [OF x(1) y(1) ne' this] have "conflict x y" .
    with assms(1) x(1) y(1) ne' show False by (auto simp: noDoubleBooking_def)
  qed
qed

lemma cancel_only_keeps:
  assumes "wellFormed s" and "noDoubleBooking s"
    and "bookings s' = map (\<lambda>x. if P x then markCancelled u now reason x else x) (bookings s)"
    and "next_id s' = next_id s" and "groups s' = groups s"
  shows "wellFormed s' \<and> noDoubleBooking s'"
proof
  show "wellFormed s'"
    by (rule wellFormed_map [OF assms(1,3) _ assms(4,5)]) simp
  show "noDoubleBooking s'"
    using assms(2,3)
  proof (rule noDoubleBooking_map)
    fix x y
    assume "conflict (if P x then markCancelled u now reason x else x)
                     (if P y then markCancelled u now reason y else y)"
    then show "conflict x y"
      by (cases "P x"; cases "P y") (simp_all add: conflict_def)
  qed simp
qed

lemma append_keeps:
  assumes "wellFormed s" and "noDoubleBooking s"
    and "b_id b = next_id s" and "\<forall>x \<in> set (bookings s). \<not> conflict x b"
    and "bookings s' = bookings s @ [b]" and "next_id s' = Suc (next_id s)"
    and "groups s' = groups s"
  shows "wellFormed s' \<and> noDoubleBooking s'"
proof
  have fresh: "\<forall>x \<in> set (bookings s). b_id x < b_id b"
    using assms(1,3) by (simp add: wellFormed_def)
  then have "b_id b \<notin> b_id ` set (bookings s)" by auto
  then show "wellFormed s'"
    using assms(1,3,5,6,7) by (auto simp: wellFormed_def less_Suc_eq)
  show "noDoubleBooking s'"
    using assms(2,4,5) conflict_sym by (auto simp: noDoubleBooking_def)
qed

lemma Booking_create_keeps:
  assumes "wellFormed s" and "noDoubleBooking s"
    and "Booking_create r org st en atts grp s = Inr (b, s')"
    and "\<not> checkOverlap s r st en None"
  shows "wellFormed s' \<and> noDoubleBooking s' \<and> groups s' = groups s
       \<and> bookings s' = bookings s @ [b] \<and> room b = r \<and> startTime b = st \<and> endTime b = en
       \<and> status b = Confirmed \<and> st < en"
proof -
  from assms(3) have b: "b_id b = next_id s" "room b = r" "startTime b = st" "endTime b = en"
      "status b = Confirmed"
    and s': "bookings s' = bookings s @ [b]" "next_id s' = Suc (next_id s)" "groups s' = groups s"
    and valid: "st < en"
    by (auto simp: Booking_create_def Let_def preSave_def split: if_splits)
  have free: "\<forall>x \<in> set (bookings s). \<not> conflict x b"
  proof
    fix x assume x: "x \<in> set (bookings s)"
    show "\<not> conflict x b"
    proof
      assume "conflict x b"
      then have "overlapFilter r st en x"
        using b by (auto simp: conflict_def overlapFilter_def intro: overlaps_imp_overlapQuery)
      with x assms(4) show False by (auto simp: checkOverlap_None)
    qed
  qed
  from append_keeps [OF assms(1,2) b(1) free s'] show ?thesis
    using b s' valid by simp
qed
section \<open>Keeping rooms single-booked: the override\<close>

lemma Booking_save_cancel:
  "Booking_save (markCancelled u now reason c) s = Inr s1 \<Longrightarrow>
     bookings s1 = map (\<lambda>x. if b_id x = b_id c then markCancelled u now reason c else x) (bookings s)
   \<and> groups s1 = groups s \<and> next_id s1 = next_id s \<and> rooms s1 = rooms s"
  by (auto simp: Booking_save_def split: if_splits)

text \<open>One save of a cancelled copy of a stored document keeps the invariants.\<close>

lemma save_cancelled_keeps:
  assumes "wellFormed s" and "noDoubleBooking s" and "c \<in> set (bookings s)"
    and "Booking_save (markCancelled u now reason c) s = Inr s1"
  shows "wellFormed s1 \<and> noDoubleBooking s1 \<and> groups s1 = groups s \<and> next_id s1 = next_id s
       \<and> bookings s1 = map (\<lambda>x. if x = c then markCancelled u now reason x else x) (bookings s)"
proof -
  have d: "distinct (map b_id (bookings s))" using assms(1) by (simp add: wellFormed_def)
  from Booking_save_cancel [OF assms(4)] replace_by_id [OF d assms(3), of "markCancelled u now reason"]
  have bs: "bookings s1 = map (\<lambda>x. if x = c then markCancelled u now reason x else x) (bookings s)"
    and rest: "groups s1 = groups s" "next_id s1 = next_id s"
    by simp_all
  from cancel_only_keeps [OF assms(1,2) bs rest(2,1)] bs rest show ?thesis by simp
qed

lemma cancelConflictingBookings_keeps:
  assumes "wellFormed s" and "noDoubleBooking s" and "set cs \<subseteq> set (bookings s)" and "distinct cs"
    and "cancelConflictingBookings u now reason cs s = (r, s')"
  shows "wellFormed s' \<and> noDoubleBooking s' \<and> groups s' = groups s \<and> next_id s' = next_id s
       \<and> (\<exists>cdocs. set cdocs \<subseteq> set cs \<and> (r = None \<longrightarrow> cdocs = cs)
             \<and> bookings s' = map (\<lambda>x. if x \<in> set cdocs then markCancelled u now reason x else x)
                                 (bookings s))"
  using assms
proof (induction cs arbitrary: s)
  case Nil
  then show ?case by (auto intro!: exI [of _ "[]"])
next
  case (Cons c cs)
  let ?mc = "markCancelled u now reason"
  show ?case
  proof (cases "Booking_save (?mc c) s")
    case (Inl e)
    with Cons.prems show ?thesis by (auto intro!: exI [of _ "[]"])
  next
    case (Inr s1)
    let ?s2 = "Notification_create (overrideNotification c) s1"
    have c_in: "c \<in> set (bookings s)" using Cons.prems(3) by simp
    from save_cancelled_keeps [OF Cons.prems(1,2) c_in Inr]
    have k1: "wellFormed s1" "noDoubleBooking s1" "groups s1 = groups s" "next_id s1 = next_id s"
      and bs1: "bookings s1 = map (\<lambda>x. if x = c then ?mc x else x) (bookings s)"
      by simp_all
    have wf2: "wellFormed ?s2" using k1(1) by (simp add: wellFormed_cong [of ?s2 s1])
    have nd2: "noDoubleBooking ?s2" using k1(2) by (simp add: noDoubleBooking_cong [of ?s2 s1])
    have sub: "set cs \<subseteq> set (bookings ?s2)"
    proof
      fix x assume x: "x \<in> set cs"
      then have "x \<noteq> c" using Cons.prems(4) by auto
      moreover have "x \<in> set (bookings s)" using x Cons.prems(3) by auto
      ultimately show "x \<in> set (bookings ?s2)"
        unfolding Notification_create_fields bs1 by (auto simp: image_iff intro!: bexI [of _ x])
    qed
    have dist: "distinct cs" using Cons.prems(4) by simp
    have run: "cancelConflictingBookings u now reason cs ?s2 = (r, s')"
      using Cons.prems(5) Inr by simp
    from Cons.IH [OF wf2 nd2 sub dist run] obtain cdocs where
      k': "wellFormed s'" "noDoubleBooking s'" "groups s' = groups ?s2" "next_id s' = next_id ?s2"
      and cdocs: "set cdocs \<subseteq> set cs" "r = None \<longrightarrow> cdocs = cs"
      and bs': "bookings s' = map (\<lambda>x. if x \<in> set cdocs then ?mc x else x) (bookings ?s2)"
      by blast
    have "bookings s' = map (\<lambda>x. if x \<in> set (c # cdocs) then ?mc x else x) (bookings s)"
      unfolding bs' Notification_create_fields bs1 by (auto simp: markCancelled_idem)
    moreover have "set (c # cdocs) \<subseteq> set (c # cs)" using cdocs(1) by auto
    moreover have "r = None \<longrightarrow> c # cdocs = c # cs" using cdocs(2) by simp
    ultimately show ?thesis
      using k' k1(3,4) by (intro conjI exI [of _ "c # cdocs"]) simp_all
  qed
qed

lemma adminOverride_keeps:
  assumes "wellFormed s" and "noDoubleBooking s"
    and "adminOverride u now reason roomId st en s = (r, s')"
  shows "wellFormed s' \<and> noDoubleBooking s' \<and> groups s' = groups s
       \<and> (r = None \<longrightarrow> \<not> checkOverlap s' roomId st en None)"
proof -
  have d: "distinct (bookings s)" using assms(1) by (simp add: wellFormed_def distinct_map)
  have sub: "set (conflictingBookings s roomId st en) \<subseteq> set (bookings s)"
    and dist: "distinct (conflictingBookings s roomId st en)"
    using d by (auto simp: conflictingBookings_def)
  from cancelConflictingBookings_keeps [OF assms(1,2) sub dist assms(3) [unfolded adminOverride_def]]
  obtain cdocs where k: "wellFormed s'" "noDoubleBooking s'" "groups s' = groups s"
    and cdocs: "r = None \<longrightarrow> cdocs = conflictingBookings s roomId st en"
    and bs: "bookings s' = map (\<lambda>x. if x \<in> set cdocs then markCancelled u now reason x else x)
                              (bookings s)"
    by blast
  have "\<not> checkOverlap s' roomId st en None" if "r = None"
  proof -
    from that cdocs have "cdocs = conflictingBookings s roomId st en" by simp
    then have eq: "bookings s' = map (\<lambda>x. if overlapFilter roomId st en x
                                      then markCancelled u now reason x else x) (bookings s)"
      unfolding bs by (auto simp: conflictingBookings_def intro: map_cong)
    have "\<not> overlapFilter roomId st en
           (if overlapFilter roomId st en x then markCancelled u now reason x else x)" for x
      by (cases "overlapFilter roomId st en x") (simp_all add: overlapFilter_def)
    then have "filter (overlapFilter roomId st en)
                 (map (\<lambda>x. if overlapFilter roomId st en x
                           then markCancelled u now reason x else x) (bookings s)) = []"
      by (rule filter_map_none)
    then have "filter (overlapFilter roomId st en) (bookings s') = []"
      by (simp only: eq)
    then show ?thesis
      by (simp add: checkOverlap_None filter_empty_conv)
  qed
  with k show ?thesis by simp
qed

section \<open>Keeping rooms single-booked: a single booking\<close>

lemma after_create_keeps:
  assumes "wellFormed s1" and "noDoubleBooking s1"
    and "\<not> checkOverlap s1 r st en None"
  shows "case Booking_create r org st en atts grp s1 of
           Inl e \<Rightarrow> True
         | Inr (b, s2) \<Rightarrow> wellFormed s2 \<and> noDoubleBooking s2 \<and> groups s2 = groups s1"
proof (cases "Booking_create r org st en atts grp s1")
  case (Inl e)
  then show ?thesis by simp
next
  case (Inr p)
  obtain b s2 where p: "p = (b, s2)" by (cases p)
  from Booking_create_keeps [OF assms(1,2) Inr [unfolded p] assms(3)]
  show ?thesis using Inr p by simp
qed

lemma persistSingle_keeps:
  assumes "wellFormed s1" and "noDoubleBooking s1"
    and "\<not> checkOverlap s1 (req_room req) (req_startTime req) (req_endTime req) None"
  shows "wellFormed (snd (persistSingle s1 u req atts flag))
       \<and> noDoubleBooking (snd (persistSingle s1 u req atts flag))
       \<and> groups (snd (persistSingle s1 u req atts flag)) = groups s1"
proof (cases "Booking_create (req_room req) (u_id u) (req_startTime req) (req_endTime req) atts None s1")
  case (Inl e)
  then show ?thesis using assms by (simp add: persistSingle_def)
next
  case (Inr p)
  obtain b s2 where p: "p = (b, s2)" by (cases p)
  from Booking_create_keeps [OF assms(1,2) Inr [unfolded p] assms(3)]
  have k: "wellFormed s2" "noDoubleBooking s2" "groups s2 = groups s1" by simp_all
  let ?s5 = "snd (persistSingle s1 u req atts flag)"
  have same: "bookings ?s5 = bookings s2" "groups ?s5 = groups s2" "next_id ?s5 = next_id s2"
    using Inr p by (simp_all add: persistSingle_def Let_def)
  show ?thesis
    using k same by (simp only: wellFormed_cong [OF same] noDoubleBooking_cong [OF same(1)])
qed

lemma createSingle_keeps:
  assumes "wellFormed s" and "noDoubleBooking s"
    and "u_role u \<noteq> Admin \<longrightarrow>
           \<not> checkOverlap s (req_room req) (req_startTime req) (req_endTime req) None"
    and reg: "regularZone z"
  shows "\<exists>r s'. createSingle z s now u req atts = Some (r, s') \<and> wellFormed s' \<and> noDoubleBooking s'"
proof (cases "u_role u = Admin")
  case False
  with assms(3) have free: "\<not> checkOverlap s (req_room req) (req_startTime req) (req_endTime req) None"
    by simp
  from persistSingle_keeps [OF assms(1,2) free, where u = u and atts = atts and flag = False]
  show ?thesis using False
    by (cases "persistSingle s u req atts False") (simp add: createSingle_def)
next
  case True
  obtain h where h: "checkOverlapWithRecurring z s (req_room req) (req_startTime req)
                       (req_endTime req) None = Some h"
    and imp: "checkOverlap s (req_room req) (req_startTime req) (req_endTime req) None \<longrightarrow> h"
    using checkOverlapWithRecurring_Some [OF reg assms(1)] by blast
  show ?thesis
  proof (cases h)
    case False
    with imp have free: "\<not> checkOverlap s (req_room req) (req_startTime req) (req_endTime req) None"
      by simp
    from persistSingle_keeps [OF assms(1,2) free, where u = u and atts = atts and flag = False]
    show ?thesis using True h False
      by (cases "persistSingle s u req atts False") (simp add: createSingle_def)
  next
    case hit: True
    obtain r1 s1 where ov: "adminOverride u now overrideReason (req_room req) (req_startTime req)
                              (req_endTime req) s = (r1, s1)"
      by (cases "adminOverride u now overrideReason (req_room req) (req_startTime req)
                              (req_endTime req) s")
    from adminOverride_keeps [OF assms(1,2) ov]
    have k: "wellFormed s1" "noDoubleBooking s1"
      and free: "r1 = None \<longrightarrow> \<not> checkOverlap s1 (req_room req) (req_startTime req) (req_endTime req) None"
      by simp_all
    show ?thesis
    proof (cases r1)
      case (Some e)
      then show ?thesis using True h hit ov k by (simp add: createSingle_def)
    next
      case None
      with free have free1: "\<not> checkOverlap s1 (req_room req) (req_startTime req) (req_endTime req) None"
        by simp
      from persistSingle_keeps [OF k free1, where u = u and atts = atts and flag = True]
      show ?thesis using True h hit ov None
        by (cases "persistSingle s1 u req atts True") (simp add: createSingle_def)
    qed
  qed
qed
section \<open>Keeping rooms single-booked: the occurrences of a recurring booking\<close>

lemma timeString_bounds:
  "timeString z t = (h, m) \<Longrightarrow> 0 \<le> h \<and> h < 24 \<and> 0 \<le> m \<and> m < 60"
proof -
  let ?t = "localTime z t"
  assume "timeString z t = (h, m)"
  then have h: "h = (?t mod 86400000) div 3600000" and m: "m = (?t mod 3600000) div 60000"
    by (simp_all add: timeString_def getHours_def getMinutes_def day_ms_def hour_ms_def minute_ms_def)
  have "0 \<le> ?t mod 86400000" "?t mod 86400000 \<le> 86399999" "0 \<le> ?t mod 3600000"
      "?t mod 3600000 \<le> 3599999"
    using pos_mod_bound [of 86400000 ?t] pos_mod_bound [of 3600000 ?t] by simp_all
  then have "0 \<le> (?t mod 86400000) div 3600000" "(?t mod 86400000) div 3600000 \<le> 86399999 div 3600000"
      "0 \<le> (?t mod 3600000) div 60000" "(?t mod 3600000) div 60000 \<le> 3599999 div 60000"
    by (simp_all add: pos_imp_zdiv_nonneg_iff zdiv_mono1)
  then show ?thesis unfolding h m by simp
qed

text \<open>
  An occurrence lies within its own calendar day, give or take the offset of the zone,
  so two occurrences whose days are a week or more apart do not meet.
\<close>

lemma combine_bounds:
  assumes "regularZone z" "0 \<le> h" "h < 24" "0 \<le> m" "m < 60"
  shows "localDay z d * day_ms - day_ms \<le> combineDateAndTime z d (h, m)
       \<and> combineDateAndTime z d (h, m) < localDay z d * day_ms + 2 * day_ms"
proof -
  let ?x = "localDay z d * day_ms + h * hour_ms + m * minute_ms"
  have "0 \<le> h * hour_ms + m * minute_ms" "h * hour_ms + m * minute_ms < day_ms"
    using assms(2-5) by (simp_all add: hour_ms_def minute_ms_def day_ms_def)
  with utcTime_bounds [OF assms(1), of ?x] show ?thesis
    by (simp add: combineDateAndTime_def)
qed

lemma occurrences_apart:
  assumes "regularZone z"
    and "0 \<le> h1" "h1 < 24" "0 \<le> m1" "m1 < 60" "0 \<le> h2" "h2 < 24" "0 \<le> m2" "m2 < 60"
    and "localDay z d + 7 \<le> localDay z d'"
  shows "\<not> overlapQuery (combineDateAndTime z d (h1, m1)) (combineDateAndTime z d (h2, m2))
           (combineDateAndTime z d' (h1, m1)) (combineDateAndTime z d' (h2, m2))"
proof -
  have "localDay z d * day_ms + 7 * day_ms \<le> localDay z d' * day_ms"
    using assms(10) by (simp add: day_ms_def)
  with combine_bounds [OF assms(1-5), of d] combine_bounds [OF assms(1) assms(6-9), of d]
    combine_bounds [OF assms(1-5), of d'] combine_bounds [OF assms(1) assms(6-9), of d']
  show ?thesis
    by (simp add: overlapQuery_def startsDuring_def endsDuring_def containedBy_def
        containsAll_def day_ms_def)
qed

lemma weekly_days:
  assumes "regularZone z"
    and "\<forall>i. Suc i < length ds \<longrightarrow> ds ! Suc i = addDays z (ds ! i) 7"
  shows "i \<le> j \<Longrightarrow> j < length ds \<Longrightarrow> localDay z (ds ! j) = localDay z (ds ! i) + 7 * int (j - i)"
proof (induction j)
  case 0
  then show ?case by simp
next
  case (Suc j)
  show ?case
  proof (cases "i = Suc j")
    case True
    then show ?thesis by simp
  next
    case False
    with Suc.prems have ij: "i \<le> j" and j: "j < length ds" by simp_all
    from assms(2) Suc.prems(2) have "ds ! Suc j = addDays z (ds ! j) 7" by simp
    then have "localDay z (ds ! Suc j) = localDay z (ds ! j) + 7"
      by (simp add: localDay_addDays [OF assms(1)])
    with Suc.IH [OF ij j] ij show ?thesis by (simp add: Suc_diff_le)
  qed
qed

lemma weekly_apart:
  assumes "regularZone z"
    and "\<forall>i. Suc i < length ds \<longrightarrow> ds ! Suc i = addDays z (ds ! i) 7"
    and "0 \<le> h1" "h1 < 24" "0 \<le> m1" "m1 < 60" "0 \<le> h2" "h2 < 24" "0 \<le> m2" "m2 < 60"
  shows "sorted_wrt (\<lambda>d d'. \<not> overlapQuery (combineDateAndTime z d (h1, m1))
                               (combineDateAndTime z d (h2, m2))
                               (combineDateAndTime z d' (h1, m1))
                               (combineDateAndTime z d' (h2, m2))) ds"
  unfolding sorted_wrt_iff_nth_less
proof (intro allI impI)
  fix i j assume ij: "i < j" and j: "j < length ds"
  from weekly_days [OF assms(1,2), of i j] ij j
  have "localDay z (ds ! j) = localDay z (ds ! i) + 7 * int (j - i)" by simp
  moreover have "1 \<le> int (j - i)" using ij by simp
  ultimately have "localDay z (ds ! i) + 7 \<le> localDay z (ds ! j)" by simp
  then show "\<not> overlapQuery (combineDateAndTime z (ds ! i) (h1, m1))
            (combineDateAndTime z (ds ! i) (h2, m2))
            (combineDateAndTime z (ds ! j) (h1, m1))
            (combineDateAndTime z (ds ! j) (h2, m2))"
    by (rule occurrences_apart [OF assms(1) assms(3-10)])
qed

lemma createRecurringBookings_keeps:
  assumes "wellFormed s" and "noDoubleBooking s"
    and "u_role u \<noteq> Admin \<longrightarrow>
           (\<forall>d \<in> set ds. \<not> checkOverlap s roomId (combineDateAndTime z d bst)
                              (combineDateAndTime z d bet) None)
         \<and> sorted_wrt (\<lambda>d d'. \<not> overlapQuery (combineDateAndTime z d bst) (combineDateAndTime z d bet)
                                  (combineDateAndTime z d' bst) (combineDateAndTime z d' bet)) ds"
  shows "wellFormed (snd (createRecurringBookings z u now roomId atts grp bst bet ds created s))
       \<and> noDoubleBooking (snd (createRecurringBookings z u now roomId atts grp bst bet ds created s))"
  using assms
proof (induction ds arbitrary: s created)
  case Nil
  then show ?case by simp
next
  case (Cons d ds)
  let ?S = "combineDateAndTime z d bst" and ?E = "combineDateAndTime z d bet"
  let ?r = "if u_role u = Admin
            then adminOverride u now overrideReasonRecurring roomId ?S ?E s else (None, s)"
  have k1: "wellFormed (snd ?r) \<and> noDoubleBooking (snd ?r)
          \<and> (fst ?r = None \<longrightarrow> \<not> checkOverlap (snd ?r) roomId ?S ?E None)
          \<and> (u_role u \<noteq> Admin \<longrightarrow> snd ?r = s)"
  proof (cases "u_role u = Admin")
    case True
    obtain r1 s1 where ov: "adminOverride u now overrideReasonRecurring roomId ?S ?E s = (r1, s1)"
      by (cases "adminOverride u now overrideReasonRecurring roomId ?S ?E s")
    from adminOverride_keeps [OF Cons.prems(1,2) ov] show ?thesis using True ov by simp
  next
    case False
    then show ?thesis using Cons.prems by simp
  qed
  show ?case
  proof (cases "fst ?r")
    case (Some e)
    then show ?thesis using k1 by (simp add: Let_def)
  next
    case None
    with k1 have free: "\<not> checkOverlap (snd ?r) roomId ?S ?E None" by simp
    show ?thesis
    proof (cases "Booking_create roomId (u_id u) ?S ?E atts (Some grp) (snd ?r)")
      case (Inl e)
      then show ?thesis using None k1 by (simp add: Let_def)
    next
      case (Inr p)
      obtain b s2 where p: "p = (b, s2)" by (cases p)
      from Booking_create_keeps [OF _ _ Inr [unfolded p] free] k1
      have k2: "wellFormed s2" "noDoubleBooking s2"
        and bs2: "bookings s2 = bookings (snd ?r) @ [b]"
        and b: "room b = roomId" "startTime b = ?S" "endTime b = ?E" "status b = Confirmed"
        by simp_all
      have hyp: "u_role u \<noteq> Admin \<longrightarrow>
           (\<forall>d \<in> set ds. \<not> checkOverlap s2 roomId (combineDateAndTime z d bst)
                              (combineDateAndTime z d bet) None)
         \<and> sorted_wrt (\<lambda>d d'. \<not> overlapQuery (combineDateAndTime z d bst) (combineDateAndTime z d bet)
                                  (combineDateAndTime z d' bst) (combineDateAndTime z d' bet)) ds"
      proof
        assume member: "u_role u \<noteq> Admin"
        with k1 have same: "snd ?r = s" by simp
        from Cons.prems(3) member
        have old: "\<forall>d' \<in> set ds. \<not> checkOverlap s roomId (combineDateAndTime z d' bst)
                              (combineDateAndTime z d' bet) None"
          and apart: "\<forall>d' \<in> set ds. \<not> overlapQuery ?S ?E (combineDateAndTime z d' bst)
                                       (combineDateAndTime z d' bet)"
          and rest: "sorted_wrt (\<lambda>d d'. \<not> overlapQuery (combineDateAndTime z d bst)
                       (combineDateAndTime z d bet) (combineDateAndTime z d' bst)
                       (combineDateAndTime z d' bet)) ds"
          by simp_all
        have "\<forall>d' \<in> set ds. \<not> checkOverlap s2 roomId (combineDateAndTime z d' bst)
                              (combineDateAndTime z d' bet) None"
          using old apart b unfolding checkOverlap_None bs2 same
          by (auto simp: overlapFilter_def)
        with rest show "(\<forall>d \<in> set ds. \<not> checkOverlap s2 roomId (combineDateAndTime z d bst)
                              (combineDateAndTime z d bet) None)
         \<and> sorted_wrt (\<lambda>d d'. \<not> overlapQuery (combineDateAndTime z d bst) (combineDateAndTime z d bet)
                                  (combineDateAndTime z d' bst) (combineDateAndTime z d' bet)) ds"
          by simp
      qed
      from Cons.IH [OF k2 hyp, of "created @ [b]"]
      show ?thesis using None Inr p by (simp add: Let_def)
    qed
  qed
qed

section \<open>Keeping rooms single-booked: a recurring booking\<close>

lemma fold_notifyAttendees_fields [simp]:
  "bookings (fold (\<lambda>b. notifyAttendeesOfMeeting b p u) bs s) = bookings s"
  "groups (fold (\<lambda>b. notifyAttendeesOfMeeting b p u) bs s) = groups s"
  "next_id (fold (\<lambda>b. notifyAttendeesOfMeeting b p u) bs s) = next_id s"
  by (induction bs arbitrary: s) simp_all

lemma respondRecurring_fields [simp]:
  "bookings (snd (respondRecurring s u req created)) = bookings s"
  "groups (snd (respondRecurring s u req created)) = groups s"
  "next_id (snd (respondRecurring s u req created)) = next_id s"
  by (simp_all add: respondRecurring_def Let_def)

lemma respondRecurring_fails: "\<exists>e. fst (respondRecurring s u req created) = Inl (Uncaught e)"
  by (simp add: respondRecurring_def Let_def)

lemma RecurrenceGroup_create_getDay:
  "\<exists>g. RecurrenceGroup_create c r (getDay z t) sd ed bst bet s =
          Inr (g, s\<lparr>groups := groups s @ [g], next_id := Suc (next_id s)\<rparr>)
      \<and> g_id g = next_id s \<and> g_room g = r \<and> dayOfWeek g = getDay z t \<and> startDate g = sd
      \<and> endDate g = ed \<and> baseStartTime g = bst \<and> baseEndTime g = bet"
  using getDay_range [of z t] by (simp add: RecurrenceGroup_create_def Let_def)

lemma generateRecurringDates_own_day:
  assumes "regularZone z"
  shows "\<exists>ds. generateRecurringDates z t e (getDay z t) = Some ds
           \<and> (\<forall>i. Suc i < length ds \<longrightarrow> ds ! Suc i = addDays z (ds ! i) 7)"
proof -
  from allOccurrences_weekly [OF assms, of t e] obtain ds
    where "allOccurrences z t e = Some ds"
      and "\<forall>i. Suc i < length ds \<longrightarrow> ds ! Suc i = addDays z (ds ! i) 7"
    by (elim exE conjE)
  then show ?thesis
    by (simp add: generateRecurringDates_def firstOccurrence_own_day)
qed

lemma createRecurring_keeps:
  assumes "wellFormed s" and "noDoubleBooking s" and reg: "regularZone z"
  shows "\<exists>r s'. createRecurring z s now u req atts recEnd = Some (r, s')
           \<and> wellFormed s' \<and> noDoubleBooking s'"
proof -
  let ?st = "req_startTime req"
  let ?bst = "timeString z ?st" and ?bet = "timeString z (req_endTime req)"
  obtain ds where gen: "generateRecurringDates z ?st recEnd (getDay z ?st) = Some ds"
    and chain: "\<forall>i. Suc i < length ds \<longrightarrow> ds ! Suc i = addDays z (ds ! i) 7"
    using generateRecurringDates_own_day [OF reg] by blast
  obtain g where g: "RecurrenceGroup_create (u_id u) (req_room req) (getDay z ?st) ?st recEnd ?bst ?bet s
      = Inr (g, s\<lparr>groups := groups s @ [g], next_id := Suc (next_id s)\<rparr>)"
    and dow: "dayOfWeek g = getDay z ?st"
    using RecurrenceGroup_create_getDay by blast
  let ?s1 = "s\<lparr>groups := groups s @ [g], next_id := Suc (next_id s)\<rparr>"
  have wf1: "wellFormed ?s1"
    using assms(1) dow getDay_range [of z ?st] by (auto simp: wellFormed_def less_Suc_eq)
  have nd1: "noDoubleBooking ?s1"
    using assms(2) by (simp add: noDoubleBooking_def)
  obtain cds where cds: "conflictDates z ?s1 (req_room req) ?bst ?bet ds = Some cds"
    and free: "cds = [] \<longrightarrow> (\<forall>d \<in> set ds. \<not> checkOverlap ?s1 (req_room req)
                  (combineDateAndTime z d ?bst) (combineDateAndTime z d ?bet) None)"
    using conflictDates_Some [OF reg wf1] by blast
  let ?cds = "if u_role u \<noteq> Admin then cds else []"
  have pre: "(if u_role u \<noteq> Admin then conflictDates z ?s1 (req_room req) ?bst ?bet ds else Some [])
             = Some ?cds"
    using cds by simp
  show ?thesis
  proof (cases "?cds = []")
    case False
    then show ?thesis
      using g pre wf1 nd1 gen
      by (simp add: createRecurring_def Let_def)
  next
    case True
    obtain h1 m1 h2 m2 where ts: "?bst = (h1, m1)" "?bet = (h2, m2)"
      by (cases ?bst, cases ?bet) auto
    from timeString_bounds [OF ts(1)] timeString_bounds [OF ts(2)]
    have apart: "sorted_wrt (\<lambda>d d'. \<not> overlapQuery (combineDateAndTime z d ?bst)
                     (combineDateAndTime z d ?bet) (combineDateAndTime z d' ?bst)
                     (combineDateAndTime z d' ?bet)) ds"
      unfolding ts by (intro weekly_apart [OF reg chain]) simp_all
    have hyp: "u_role u \<noteq> Admin \<longrightarrow>
           (\<forall>d \<in> set ds. \<not> checkOverlap ?s1 (req_room req) (combineDateAndTime z d ?bst)
                              (combineDateAndTime z d ?bet) None)
         \<and> sorted_wrt (\<lambda>d d'. \<not> overlapQuery (combineDateAndTime z d ?bst)
                     (combineDateAndTime z d ?bet) (combineDateAndTime z d' ?bst)
                     (combineDateAndTime z d' ?bet)) ds"
      using True free apart by auto
    obtain res s2 where loop: "createRecurringBookings z u now (req_room req) atts (g_id g) ?bst ?bet
                                 ds [] ?s1 = (res, s2)"
      by (cases "createRecurringBookings z u now (req_room req) atts (g_id g) ?bst ?bet ds [] ?s1")
    from createRecurringBookings_keeps [OF wf1 nd1 hyp, of now atts "g_id g" "[]"] loop
    have k2: "wellFormed s2" "noDoubleBooking s2" by simp_all
    show ?thesis
    proof (cases res)
      case (Inl e)
      then show ?thesis
        using g pre True loop k2 gen
        by (simp add: createRecurring_def Let_def)
    next
      case (Inr created)
      let ?s' = "snd (respondRecurring s2 u req created)"
      have "wellFormed ?s'" "noDoubleBooking ?s'"
        using k2 by (simp_all add: wellFormed_cong [of ?s' s2] noDoubleBooking_cong [of ?s' s2])
      then show ?thesis
        using g pre True loop Inr gen
        by (cases "respondRecurring s2 u req created")
           (simp add: createRecurring_def Let_def)
    qed
  qed
qed


section \<open>Keeping rooms single-booked: create and update\<close>

lemma createBooking_check_Some:
  assumes "regularZone z" and "wellFormed s"
  shows "\<exists>r. createBooking_check z s u req = Some r
           \<and> (\<forall>atts. r = Inr atts \<and> u_role u \<noteq> Admin \<longrightarrow>
                 \<not> checkOverlap s (req_room req) (req_startTime req) (req_endTime req) None)"
proof -
  obtain h where h: "checkOverlapWithRecurring z s (req_room req) (req_startTime req)
                       (req_endTime req) None = Some h"
    and imp: "checkOverlap s (req_room req) (req_startTime req) (req_endTime req) None \<longrightarrow> h"
    using checkOverlapWithRecurring_Some [OF assms] by blast
  show ?thesis
    using h imp
    by (auto simp: createBooking_check_def split: option.splits)
qed

lemma createBooking_keeps:
  assumes "wellFormed s" and "noDoubleBooking s" and reg: "regularZone z"
  shows "\<exists>r s'. createBooking z s now u req = Some (r, s') \<and> wellFormed s' \<and> noDoubleBooking s'"
proof -
  obtain c where c: "createBooking_check z s u req = Some c"
    and free: "\<forall>atts. c = Inr atts \<and> u_role u \<noteq> Admin \<longrightarrow>
                 \<not> checkOverlap s (req_room req) (req_startTime req) (req_endTime req) None"
    using createBooking_check_Some [OF reg assms(1)] by blast
  show ?thesis
  proof (cases c)
    case (Inl f)
    then show ?thesis using c assms by (simp add: createBooking_def)
  next
    case (Inr atts)
    with free have f: "u_role u \<noteq> Admin \<longrightarrow>
           \<not> checkOverlap s (req_room req) (req_startTime req) (req_endTime req) None"
      by simp
    have "\<exists>r s'. createBooking_commit z s now u req atts = Some (r, s')
            \<and> wellFormed s' \<and> noDoubleBooking s'"
      using createSingle_keeps [OF assms(1,2) f reg] createRecurring_keeps [OF assms]
      by (simp add: createBooking_commit_def split: option.splits)
    then show ?thesis using c Inr by (simp add: createBooking_def)
  qed
qed

lemma findBooking_Some: "findBooking s i = Some b \<Longrightarrow> b \<in> set (bookings s) \<and> b_id b = i"
  by (auto simp: findBooking_def find_Some_iff)

lemma applyUpdate_id [simp]: "b_id (applyUpdate body b) = b_id b"
  by (simp add: applyUpdate_def)

text \<open>
  An update that writes only the slot fields it scanned, and not the status
  \<open>Confirmed\<close>, keeps the invariants.
\<close>

lemma updateBooking_keeps:
  assumes "wellFormed s" and "noDoubleBooking s"
    and "\<not> writesUnscanned body" and "writtenStatus body \<noteq> Some Confirmed"
  shows "wellFormed (snd (updateBooking s u i body))
       \<and> noDoubleBooking (snd (updateBooking s u i body))"
proof (cases "findBooking s i")
  case None
  then show ?thesis using assms by (simp add: updateBooking_def)
next
  case (Some b)
  let ?f = "\<lambda>x. if b_id x = i then applyUpdate body x else x"
  let ?s' = "s\<lparr>bookings := map ?f (bookings s)\<rparr>"
  let ?changes = "changesSlot body"
  let ?b' = "applyUpdate body b"
  from findBooking_Some [OF Some] have b: "b \<in> set (bookings s)" "b_id b = i" by simp_all
  have d: "distinct (map b_id (bookings s))" using assms(1) by (simp add: wellFormed_def)
  have eqs: "writtenStartTime body = bodyStartTime body" "writtenEndTime body = bodyEndTime body"
      "writtenRoom body = upd_room body"
    using assms(3) by (simp_all add: writesUnscanned_def)
  have only: "x = b" if "x \<in> set (bookings s)" "b_id x = i" for x
    using that b d by (auto simp: distinct_map dest: inj_onD)
  have wf': "wellFormed ?s'"
    by (rule wellFormed_map [OF assms(1), of ?s' ?f]) simp_all
  have nd': "noDoubleBooking ?s'"
    if free: "?changes \<longrightarrow> \<not> checkOverlap s (room ?b') (startTime ?b') (endTime ?b') (Some i)"
  proof (rule noDoubleBooking_map [OF assms(2), of ?s' ?f])
    fix x y
    assume x: "x \<in> set (bookings s)" and y: "y \<in> set (bookings s)" and ne: "b_id x \<noteq> b_id y"
      and cf: "conflict (?f x) (?f y)"
    have key: "conflict z b" if z: "z \<in> set (bookings s)" "b_id z \<noteq> i" and c: "conflict z ?b'" for z
    proof (cases ?changes)
      case True
      from c have "overlapFilter (room ?b') (startTime ?b') (endTime ?b') z"
        by (auto simp: conflict_def overlapFilter_def intro: overlaps_imp_overlapQuery)
      with z have "checkOverlap s (room ?b') (startTime ?b') (endTime ?b') (Some i)"
        by (auto simp: checkOverlap_def list_ex_iff)
      with free True show ?thesis by simp
    next
      case False
      then have same: "room ?b' = room b" "startTime ?b' = startTime b" "endTime ?b' = endTime b"
        by (simp_all add: applyUpdate_def changesSlot_def eqs)
      have "status ?b' = Confirmed \<longrightarrow> status b = Confirmed"
        using assms(4) by (cases "writtenStatus body") (simp_all add: applyUpdate_def)
      with c same show ?thesis by (simp add: conflict_def)
    qed
    show "conflict x y"
    proof (cases "b_id x = i")
      case True
      with x only have xb: "x = b" by simp
      with ne b have yi: "b_id y \<noteq> i" by auto
      from cf True yi have "conflict ?b' y" using xb by simp
      then have "conflict y ?b'" using conflict_sym by blast
      from key [OF y yi this] show ?thesis using xb conflict_sym by blast
    next
      case False
      show ?thesis
      proof (cases "b_id y = i")
        case True
        with y only have yb: "y = b" by simp
        from cf False True have "conflict x ?b'" using yb by simp
        from key [OF x False this] show ?thesis using yb by simp
      next
        case yi: False
        with cf False show ?thesis by simp
      qed
    qed
  qed simp_all
  let ?cond = "changesSlot body \<and> checkOverlap s (room ?b') (startTime ?b') (endTime ?b') (Some i)"
  have unfold: "snd (updateBooking s u i body) =
                  (if u_role u \<noteq> Admin \<and> bookedBy b \<noteq> u_id u then s
                   else if ?cond then s else ?s')"
    using Some b(2) by (simp add: updateBooking_def Let_def applyUpdate_def eqs)
  show ?thesis
  proof (cases "(u_role u \<noteq> Admin \<and> bookedBy b \<noteq> u_id u) \<or> ?cond")
    case True
    then have "snd (updateBooking s u i body) = s" unfolding unfold by auto
    then show ?thesis using assms by simp
  next
    case False
    then have "snd (updateBooking s u i body) = ?s'" unfolding unfold by auto
    moreover have "noDoubleBooking ?s'" using False nd' by blast
    ultimately show ?thesis using wf' by simp
  qed
qed

section \<open>Keeping rooms single-booked: every operation\<close>

lemma cancelBooking_keeps:
  assumes "wellFormed s" and "noDoubleBooking s"
  shows "wellFormed (snd (cancelBooking s now u i reason))
       \<and> noDoubleBooking (snd (cancelBooking s now u i reason))"
proof (cases "findBooking s i")
  case None
  then show ?thesis using assms by (simp add: cancelBooking_def)
next
  case (Some b)
  from findBooking_Some [OF Some] have b: "b \<in> set (bookings s)" by simp
  show ?thesis
  proof (cases "Booking_save (markCancelled u now reason b) s")
    case (Inl e)
    then show ?thesis using Some assms by (simp add: cancelBooking_def)
  next
    case (Inr s1)
    from save_cancelled_keeps [OF assms b Inr]
    have k: "wellFormed s1" "noDoubleBooking s1" by simp_all
    let ?s' = "snd (cancelBooking s now u i reason)"
    have "?s' = s \<or> (bookings ?s' = bookings s1 \<and> groups ?s' = groups s1 \<and> next_id ?s' = next_id s1)"
      using Some Inr by (simp add: cancelBooking_def Let_def)
    then show ?thesis
    proof
      assume "?s' = s"
      then show ?thesis using assms by simp
    next
      assume same: "bookings ?s' = bookings s1 \<and> groups ?s' = groups s1 \<and> next_id ?s' = next_id s1"
      then show ?thesis
        using k by (simp add: wellFormed_cong [of ?s' s1] noDoubleBooking_cong [of ?s' s1])
    qed
  qed
qed

lemma filter_keeps:
  assumes "wellFormed s" and "noDoubleBooking s"
    and "bookings s' = filter P (bookings s)" and "next_id s' = next_id s" and "groups s' = groups s"
  shows "wellFormed s' \<and> noDoubleBooking s'"
  using assms by (auto simp: wellFormed_def noDoubleBooking_def distinct_map_filter)

lemma deleteBooking_keeps:
  assumes "wellFormed s" and "noDoubleBooking s"
  shows "wellFormed (snd (deleteBooking s now i)) \<and> noDoubleBooking (snd (deleteBooking s now i))"
proof (cases "findBooking s i")
  case None
  then show ?thesis using assms by (simp add: deleteBooking_def)
next
  case (Some b)
  let ?s' = "s\<lparr>bookings := filter (\<lambda>x. b_id x \<noteq> i) (bookings s)\<rparr>"
  have "wellFormed ?s' \<and> noDoubleBooking ?s'"
    by (rule filter_keeps [OF assms, of ?s' "\<lambda>x. b_id x \<noteq> i"]) simp_all
  moreover have "snd (deleteBooking s now i) = s \<or> snd (deleteBooking s now i) = ?s'"
    using Some by (simp add: deleteBooking_def Let_def)
  ultimately show ?thesis using assms by auto
qed

lemma cancelFutureBookings_keeps:
  assumes "wellFormed s" and "noDoubleBooking s" and "set cs \<subseteq> set (bookings s)" and "distinct cs"
  shows "wellFormed (snd (cancelFutureBookings u now reason cs s))
       \<and> noDoubleBooking (snd (cancelFutureBookings u now reason cs s))"
  using assms
proof (induction cs arbitrary: s)
  case Nil
  then show ?case by simp
next
  case (Cons c cs)
  let ?mc = "markCancelled u now reason"
  show ?case
  proof (cases "Booking_save (?mc c) s")
    case (Inl e)
    with Cons.prems show ?thesis by simp
  next
    case (Inr s1)
    let ?s3 = "fold (\<lambda>attendee. Notification_create (roomDeletedNotification c attendee))
                 (attendees c) (Notification_create (roomDeletedNotification c (bookedBy c)) s1)"
    have c_in: "c \<in> set (bookings s)" using Cons.prems(3) by simp
    from save_cancelled_keeps [OF Cons.prems(1,2) c_in Inr]
    have k1: "wellFormed s1" "noDoubleBooking s1"
      and bs1: "bookings s1 = map (\<lambda>x. if x = c then ?mc x else x) (bookings s)"
      by simp_all
    have same: "bookings ?s3 = bookings s1" "groups ?s3 = groups s1" "next_id ?s3 = next_id s1"
      by (simp_all add: fold_Notification_create Notification_create_def)
    have wf3: "wellFormed ?s3" using k1(1) by (simp only: wellFormed_cong [OF same])
    have nd3: "noDoubleBooking ?s3" using k1(2) by (simp only: noDoubleBooking_cong [OF same(1)])
    have sub: "set cs \<subseteq> set (bookings ?s3)"
    proof
      fix x assume x: "x \<in> set cs"
      then have "x \<noteq> c" using Cons.prems(4) by auto
      moreover have "x \<in> set (bookings s)" using x Cons.prems(3) by auto
      ultimately show "x \<in> set (bookings ?s3)"
        unfolding same bs1 by (auto simp: image_iff intro!: bexI [of _ x])
    qed
    have dist: "distinct cs" using Cons.prems(4) by simp
    from Cons.IH [OF wf3 nd3 sub dist] show ?thesis
      using Inr by (simp add: Let_def)
  qed
qed

lemma deleteRoom_keeps:
  assumes "wellFormed s" and "noDoubleBooking s"
  shows "wellFormed (snd (deleteRoom s now u i)) \<and> noDoubleBooking (snd (deleteRoom s now u i))"
proof (cases "findRoom s i")
  case None
  then show ?thesis using assms by (simp add: deleteRoom_def)
next
  case (Some r)
  let ?cs = "filter (\<lambda>b. startTime b \<ge> now) (filter (\<lambda>b. room b = i \<and> status b = Confirmed) (bookings s))"
  let ?res = "cancelFutureBookings u now (roomDeletedReason r) ?cs s"
  have d: "distinct (bookings s)" using assms(1) by (simp add: wellFormed_def distinct_map)
  have k: "wellFormed (snd ?res) \<and> noDoubleBooking (snd ?res)"
    using d by (intro cancelFutureBookings_keeps [OF assms]) auto
  let ?s' = "snd (deleteRoom s now u i)"
  have same: "bookings ?s' = bookings (snd ?res)" "groups ?s' = groups (snd ?res)"
      "next_id ?s' = next_id (snd ?res)"
    using Some by (simp_all add: deleteRoom_def Let_def split: prod.splits option.splits)
  show ?thesis
    using k by (simp only: wellFormed_cong [OF same] noDoubleBooking_cong [OF same(1)])
qed

lemma perform_keeps:
  assumes "wellFormed s" and "noDoubleBooking s" and "\<not> unscannedWrite op"
    and reg: "regularZone z"
  shows "\<exists>s'. perform z s now op = Some s' \<and> wellFormed s' \<and> noDoubleBooking s'"
proof (cases op)
  case (Create u req)
  from createBooking_keeps [OF assms(1,2) reg, of now u req] show ?thesis
    using Create by auto
next
  case (Update u i body)
  with assms(3) have "\<not> writesUnscanned body" "writtenStatus body \<noteq> Some Confirmed"
    by simp_all
  from updateBooking_keeps [OF assms(1,2) this] show ?thesis using Update by simp
next
  case (Cancel u i reason)
  from cancelBooking_keeps [OF assms(1,2)] show ?thesis using Cancel by simp
next
  case (Delete i)
  from deleteBooking_keeps [OF assms(1,2)] show ?thesis using Delete by simp
next
  case (DeleteRoom u i)
  from deleteRoom_keeps [OF assms(1,2)] show ?thesis using DeleteRoom by simp
qed

section \<open>Keeping rooms single-booked: the result\<close>

lemma exampleDb_wellFormed: "wellFormed exampleDb"
  by (simp add: wellFormed_def exampleDb_def confirmedBooking_def)

lemma exampleDb_noDoubleBooking: "noDoubleBooking exampleDb"
  by (simp add: noDoubleBooking_def exampleDb_def confirmedBooking_def conflict_def overlaps_def
      minute_ms_def)

text \<open>
  Claim C1, for requests that run one at a time on a host in a regular zone. Starting
  from a store with unique ids in which no two confirmed bookings of a room overlap,
  any sequence of operations (single or recurring create by any actor, update, cancel,
  delete, room deletion), each run to its response before the next starts, ends and
  leaves a store with the same two properties, provided every update writes only the
  slot fields its handler scanned (no update operator on room, start or end, no date
  given as the number 0) and does not write the status \<open>Confirmed\<close>.
\<close>

theorem sequential_requests_never_double_book:
  assumes "regularZone z" and "wellFormed s" and "noDoubleBooking s"
    and "\<forall>(now, op) \<in> set ops. \<not> unscannedWrite op"
  shows "\<exists>s'. performAll z s ops = Some s' \<and> wellFormed s' \<and> noDoubleBooking s'
            \<and> (\<forall>a \<in> set (bookings s'). \<forall>b \<in> set (bookings s').
                  b_id a \<noteq> b_id b \<and> room a = room b
                  \<and> status a = Confirmed \<and> status b = Confirmed
                  \<longrightarrow> \<not> overlaps (startTime a) (endTime a) (startTime b) (endTime b))"
  using assms(2-4)
proof (induction ops arbitrary: s)
  case Nil
  then show ?case by (auto simp: noDoubleBooking_def conflict_def)
next
  case (Cons p ops)
  obtain now op where p: "p = (now, op)" by (cases p)
  with Cons.prems(3) have ok: "\<not> unscannedWrite op"
    and rest: "\<forall>(now, op) \<in> set ops. \<not> unscannedWrite op" by simp_all
  from perform_keeps [OF Cons.prems(1,2) ok assms(1), of now]
  obtain s1 where s1: "perform z s now op = Some s1" "wellFormed s1" "noDoubleBooking s1" by blast
  from Cons.IH [OF s1(2,3) rest] show ?case using p s1(1) by simp
qed

theorem sequential_requests_never_double_book_witness:
  "\<exists>s'. performAll utcZone exampleDb
           [(0, Create memberUser noonRequest),
            (1, Create otherMember noonRequest),
            (2, Create adminUser noonRequest),
            (3, Cancel memberUser 10 ''moved''),
            (4, Update memberUser 11 moveToFour),
            (5, Delete 10),
            (6, DeleteRoom adminUser 2)] = Some s'
        \<and> wellFormed s' \<and> noDoubleBooking s'"
proof -
  have "\<forall>(now, op) \<in> set [(0, Create memberUser noonRequest),
            (1, Create otherMember noonRequest),
            (2, Create adminUser noonRequest),
            (3, Cancel memberUser 10 ''moved''),
            (4, Update memberUser 11 moveToFour),
            (5::int, Delete 10),
            (6, DeleteRoom adminUser 2)]. \<not> unscannedWrite op"
    by (simp add: writesUnscanned_def writtenStartTime_def writtenEndTime_def writtenRoom_def
        writtenStatus_def bodyStartTime_def bodyEndTime_def moveToFour_def emptyBody_def)
  from sequential_requests_never_double_book
    [OF utcZone_regular exampleDb_wellFormed exampleDb_noDoubleBooking this]
  show ?thesis by blast
qed

text \<open>
  The store those seven requests leave: the member's noon booking 20 was cancelled by
  the administrator's override, whose own booking is 21; booking 11 was moved to
  16:00-17:00; booking 10 was cancelled and then deleted; booking 13 was cancelled with
  its room.
\<close>

lemma sequential_requests_example:
  "map_option (map (\<lambda>b. (b_id b, room b, startTime b, endTime b, status b)) \<circ> bookings)
     (performAll utcZone exampleDb
        [(0, Create memberUser noonRequest),
         (1, Create otherMember noonRequest),
         (2, Create adminUser noonRequest),
         (3, Cancel memberUser 10 ''moved''),
         (4, Update memberUser 11 moveToFour),
         (5, Delete 10),
         (6, DeleteRoom adminUser 2)])
   = Some [(11, 1, 960 * minute_ms, 1020 * minute_ms, Confirmed),
           (12, 1, 900 * minute_ms, 960 * minute_ms, Confirmed),
           (13, 2, 600 * minute_ms, 700 * minute_ms, Cancelled),
           (20, 1, 720 * minute_ms, 780 * minute_ms, Cancelled),
           (21, 1, 720 * minute_ms, 780 * minute_ms, Confirmed)]"
  by code_simp

section \<open>Requests in flight: two creations interleaved\<close>

text \<open>
  Claim C1, as stated, fails on the code. Two members ask for room 1 at 12:00-13:00.
  Run one after the other (schedule 0, 0, 1, 1) the second request is refused and the
  invariant holds. Interleaved at the handler's suspension point (schedule 0, 1, 0, 1)
  both pass the scanner before either writes, and both bookings are stored as confirmed
  for the same room and interval: nothing in the handler or the store serialises the
  check and the write.
\<close>

theorem concurrent_creates_double_book:
  "wellFormed exampleDb \<and> noDoubleBooking exampleDb
   \<and> map_option (noDoubleBooking \<circ> snd)
        (runSchedule utcZone 0 [0, 0, 1, 1]
           [arrived memberUser noonRequest, arrived otherMember noonRequest] exampleDb)
      = Some True
   \<and> map_option (noDoubleBooking \<circ> snd)
        (runSchedule utcZone 0 [0, 1, 0, 1]
           [arrived memberUser noonRequest, arrived otherMember noonRequest] exampleDb)
      = Some False
   \<and> map_option (map b_id \<circ> bookings \<circ> snd)
        (runSchedule utcZone 0 [0, 1, 0, 1]
           [arrived memberUser noonRequest, arrived otherMember noonRequest] exampleDb)
      = Some [10, 11, 12, 13, 20, 21]
   \<and> map_option (map room \<circ> drop 4 \<circ> bookings \<circ> snd)
        (runSchedule utcZone 0 [0, 1, 0, 1]
           [arrived memberUser noonRequest, arrived otherMember noonRequest] exampleDb)
      = Some [1, 1]
   \<and> map_option (map status \<circ> drop 4 \<circ> bookings \<circ> snd)
        (runSchedule utcZone 0 [0, 1, 0, 1]
           [arrived memberUser noonRequest, arrived otherMember noonRequest] exampleDb)
      = Some [Confirmed, Confirmed]
   \<and> map_option (map startTime \<circ> drop 4 \<circ> bookings \<circ> snd)
        (runSchedule utcZone 0 [0, 1, 0, 1]
           [arrived memberUser noonRequest, arrived otherMember noonRequest] exampleDb)
      = Some [720 * minute_ms, 720 * minute_ms]
   \<and> map_option (map endTime \<circ> drop 4 \<circ> bookings \<circ> snd)
        (runSchedule utcZone 0 [0, 1, 0, 1]
           [arrived memberUser noonRequest, arrived otherMember noonRequest] exampleDb)
      = Some [780 * minute_ms, 780 * minute_ms]"
  by code_simp


text \<open>
  Run one at a time, the requests still double-book a room through the update handler,
  which writes the body as it is: a status \<open>confirmed\<close> on a cancelled booking whose
  slot has been taken since, a start time given as the number 0 (falsy, so nothing is
  scanned, and written as the epoch), or a start time inside a \<open>$set\<close> operator.
\<close>

lemma update_can_reconfirm:
  "map_option noDoubleBooking
     (performAll utcZone exampleDb
        [(0, Cancel memberUser 10 ''moved''),
         (1, Create otherMember
               \<lparr>req_room = 1, req_startTime = 600 * minute_ms, req_endTime = 660 * minute_ms,
                req_attendees = Some [9], req_isRecurring = False,
                req_recurrenceEndDate = None\<rparr>),
         (2, Update memberUser 10 (emptyBody\<lparr>upd_status := Some Confirmed\<rparr>))])
   = Some False"
  by code_simp

lemma update_can_write_unscanned:
  "map_option noDoubleBooking
     (performAll utcZone exampleDb
        [(0, Update memberUser 12 (emptyBody\<lparr>upd_startTime := Some (DateNumber 0)\<rparr>))])
   = Some False
   \<and> map_option (map (\<lambda>b. (b_id b, startTime b, endTime b)) \<circ> bookings)
     (performAll utcZone exampleDb
        [(0, Update memberUser 12 (emptyBody\<lparr>upd_startTime := Some (DateNumber 0)\<rparr>))])
   = Some [(10, 600 * minute_ms, 660 * minute_ms), (11, 840 * minute_ms, 900 * minute_ms),
           (12, 0, 960 * minute_ms), (13, 600 * minute_ms, 700 * minute_ms)]
   \<and> map_option noDoubleBooking
     (performAll utcZone exampleDb
        [(0, Update memberUser 11 (emptyBody\<lparr>op_startTime := Some (630 * minute_ms)\<rparr>))])
   = Some False
   \<and> map_option (map (\<lambda>b. (b_id b, startTime b, endTime b)) \<circ> bookings)
     (performAll utcZone exampleDb
        [(0, Update memberUser 11 (emptyBody\<lparr>op_startTime := Some (630 * minute_ms)\<rparr>))])
   = Some [(10, 600 * minute_ms, 660 * minute_ms), (11, 630 * minute_ms, 900 * minute_ms),
           (12, 900 * minute_ms, 960 * minute_ms), (13, 600 * minute_ms, 700 * minute_ms)]"
  by code_simp

section \<open>Recurring bookings: what the handlers do\<close>

lemma respondRecurring_Inl: "respondRecurring s u req created = (r, s') \<Longrightarrow> \<exists>f. r = Inl f"
  by (auto simp: respondRecurring_def Let_def split: if_splits)

lemma createRecurring_never_succeeds:
  "createRecurring z s now u req atts recurrenceEnd = Some (r, s') \<Longrightarrow> \<exists>f. r = Inl f"
  by (auto simp: createRecurring_def Let_def split: sum.splits option.splits prod.splits if_splits
      dest: respondRecurring_Inl)

text \<open>
  Claim C5 against the code. An administrator asks for room 1 at 10:30-11:30 every week,
  twice. The override cancels booking 10 (10:00-11:00), the one booking that collides
  with an occurrence, both occurrences are stored under the new recurrence group, and
  then the handler throws: its last statement reads the undeclared \<open>failedDates\<close>, so
  the request ends in \<open>next(error)\<close> instead of the 201 response with the count.
\<close>

theorem admin_recurring_create_throws:
  "map_option fst (createBooking utcZone exampleDb 5 adminUser weeklyRequest)
     = Some (Inl (Uncaught ReferenceError))
   \<and> map_option (map b_id \<circ> bookings \<circ> snd) (createBooking utcZone exampleDb 5 adminUser weeklyRequest)
     = Some [10, 11, 12, 13, 21, 22]
   \<and> map_option (map status \<circ> bookings \<circ> snd) (createBooking utcZone exampleDb 5 adminUser weeklyRequest)
     = Some [Cancelled, Confirmed, Confirmed, Confirmed, Confirmed, Confirmed]
   \<and> map_option (map startTime \<circ> drop 4 \<circ> bookings \<circ> snd)
        (createBooking utcZone exampleDb 5 adminUser weeklyRequest)
     = Some [630 * minute_ms, 7 * day_ms + 630 * minute_ms]
   \<and> map_option (map g_id \<circ> groups \<circ> snd) (createBooking utcZone exampleDb 5 adminUser weeklyRequest)
     = Some [20]"
  by code_simp

text \<open>
  Claim C2 against the code. A member asks for room 1 at 12:00-13:00 on four weeks.
  The store has no recurrence group, and only the third occurrence collides with a
  stored booking. The handler stores the recurrence group first and scans afterwards, so
  every occurrence collides with the group just stored: the refusal lists all four
  dates, and the group stays in the store. No booking is written.
\<close>

theorem member_recurring_conflict_reports_all_dates:
  "groups fourWeeksDb = []
   \<and> [checkOverlap fourWeeksDb 1 (720 * minute_ms) (780 * minute_ms) None,
       checkOverlap fourWeeksDb 1 (7 * day_ms + 720 * minute_ms) (7 * day_ms + 780 * minute_ms) None,
       checkOverlap fourWeeksDb 1 (14 * day_ms + 720 * minute_ms) (14 * day_ms + 780 * minute_ms) None,
       checkOverlap fourWeeksDb 1 (21 * day_ms + 720 * minute_ms) (21 * day_ms + 780 * minute_ms) None]
     = [False, False, True, False]
   \<and> generateRecurringDates utcZone (720 * minute_ms) (21 * day_ms + 780 * minute_ms) 4
     = Some [720 * minute_ms, 7 * day_ms + 720 * minute_ms, 14 * day_ms + 720 * minute_ms,
             21 * day_ms + 720 * minute_ms]
   \<and> map_option fst (createBooking utcZone fourWeeksDb 5 memberUser weeklyNoonRequest)
     = Some (Inl (DatesTaken [0, 7, 14, 21]))
   \<and> map_option (bookings \<circ> snd) (createBooking utcZone fourWeeksDb 5 memberUser weeklyNoonRequest)
     = Some (bookings fourWeeksDb)
   \<and> map_option (map g_id \<circ> groups \<circ> snd) (createBooking utcZone fourWeeksDb 5 memberUser weeklyNoonRequest)
     = Some [20]"
  by code_simp

text \<open>
  Claim C6 against the code. After the administrator's weekly noon booking and the
  cancellation of its first occurrence, the recurring-aware scanner still reports the
  noon slot of room 1 as taken (the group implies it), and a create request for it is
  refused. The update handler calls \<open>checkOverlap\<close>, which looks at confirmed bookings
  only, and moves booking 10 into that slot.
\<close>

theorem update_ignores_recurrence_groups:
  "checkOverlapWithRecurring utcZone freedNoonDb 1 (720 * minute_ms) (780 * minute_ms) (Some 10) = Some True
   \<and> checkOverlap freedNoonDb 1 (720 * minute_ms) (780 * minute_ms) (Some 10) = False
   \<and> fst (updateBooking freedNoonDb memberUser 10 moveToNoon)
     = Inr (confirmedBooking 10 1 (720 * minute_ms) (780 * minute_ms))
   \<and> map_option fst (createBooking utcZone freedNoonDb 10 memberUser noonRequest) = Some (Inl SlotTaken)"
  by code_simp

text \<open>
  Claim C8, as stated, fails on the code. Booking 21 is confirmed, in room 1 at
  12:00-13:00; it is an occurrence of a recurrence group. After its cancellation no
  confirmed booking collides with the slot, yet a member's create request for the
  identical interval is refused: the scanner's second part expands the group and finds
  the occurrence again.
\<close>

theorem cancelled_occurrence_still_blocks:
  "map_option status (findBooking weeklyNoonDb 21) = Some Confirmed
   \<and> map_option room (findBooking weeklyNoonDb 21) = Some (req_room noonRequest)
   \<and> map_option startTime (findBooking weeklyNoonDb 21) = Some (req_startTime noonRequest)
   \<and> map_option endTime (findBooking weeklyNoonDb 21) = Some (req_endTime noonRequest)
   \<and> map_sum id status (fst (cancelBooking weeklyNoonDb 9 adminUser 21 ''freed'')) = Inr Cancelled
   \<and> checkOverlap freedNoonDb 1 (720 * minute_ms) (780 * minute_ms) None = False
   \<and> map_option fst (createBooking utcZone freedNoonDb 10 memberUser noonRequest) = Some (Inl SlotTaken)"
  by code_simp

section \<open>Cancel, then book again\<close>

lemma cancelBooking_ok:
  assumes "findBooking s i = Some B" and "u_role u = Admin \<or> bookedBy B = u_id u"
    and "startTime B < endTime B"
  shows "\<exists>s1. cancelBooking s now u i reason = (Inr (markCancelled u now reason B), s1)
           \<and> bookings s1 = map (\<lambda>x. if b_id x = i then markCancelled u now reason B else x) (bookings s)
           \<and> groups s1 = groups s \<and> rooms s1 = rooms s \<and> next_id s1 = next_id s"
proof -
  from findBooking_Some [OF assms(1)] have i: "b_id B = i" by simp
  let ?s1 = "s\<lparr>bookings := map (\<lambda>x. if b_id x = i then markCancelled u now reason B else x) (bookings s)\<rparr>"
  have save: "Booking_save (markCancelled u now reason B) s = Inr ?s1"
    using assms(3) i by (simp add: Booking_save_def preSave_def)
  show ?thesis
    using assms(1,2) save
    by (auto simp: cancelBooking_def Let_def findRoom_def notifyAdminsOfUserAction_def
        notifyAttendeesOfMeetingUpdate_def Notification_insertMany_def Notification_create_def)
qed

lemma cancelled_never_matches: "status x = Cancelled \<Longrightarrow> \<not> overlapFilter roomId st en x"
  by (simp add: overlapFilter_def)

text \<open>
  Claim C8, amended. Let \<open>B\<close> be a stored confirmed booking that ends after it starts,
  with no other confirmed booking of its room matching the overlap query for its
  interval, and let the recurring part of the scanner find no occurrence of a recurrence
  group of that room in the interval. Then its organizer or an administrator can cancel
  it, and afterwards a member's single create request for the same room and interval,
  with at least one attendee and no more than the room holds, succeeds and stores a
  confirmed booking. The query for confirmed bookings never matches a cancelled booking.
\<close>

theorem cancel_then_recreate_succeeds:
  assumes "wellFormed s"
    and "findBooking s i = Some B" and "status B = Confirmed" and "startTime B < endTime B"
    and "u_role u = Admin \<or> bookedBy B = u_id u"
    and "u_role c \<noteq> Admin"
    and "req_room req = room B" and "req_startTime req = startTime B"
    and "req_endTime req = endTime B" and "\<not> req_isRecurring req"
    and "req_attendees req = Some atts" and "atts \<noteq> []"
    and "findRoom s (room B) = Some r" and "int (length atts) \<le> capacity r"
    and "\<not> checkOverlap s (room B) (startTime B) (endTime B) (Some i)"
    and "scanGroups z (activeRecurrenceGroups s (room B) (startTime B) (endTime B))
           (startTime B) (endTime B) = Some False"
  shows "\<exists>s1 b s2.
           cancelBooking s now u i reason = (Inr (markCancelled u now reason B), s1)
         \<and> createBooking z s1 now' c req = Some (Inr b, s2)
         \<and> b \<in> set (bookings s2) \<and> status b = Confirmed \<and> room b = room B
         \<and> startTime b = startTime B \<and> endTime b = endTime B \<and> attendees b = atts
         \<and> (\<forall>x roomId st en. status x = Cancelled \<longrightarrow> \<not> overlapFilter roomId st en x)"
proof -
  let ?mc = "markCancelled u now reason B"
  from findBooking_Some [OF assms(2)] have B: "B \<in> set (bookings s)" "b_id B = i" by simp_all
  obtain s1 where cancel: "cancelBooking s now u i reason = (Inr ?mc, s1)"
    and bs1: "bookings s1 = map (\<lambda>x. if b_id x = i then ?mc else x) (bookings s)"
    and same: "groups s1 = groups s" "rooms s1 = rooms s"
    using cancelBooking_ok [OF assms(2,5,4)] by blast
  have free: "\<not> checkOverlap s1 (room B) (startTime B) (endTime B) None"
  proof
    assume "checkOverlap s1 (room B) (startTime B) (endTime B) None"
    then obtain y where y: "y \<in> set (bookings s1)"
      and hit: "overlapFilter (room B) (startTime B) (endTime B) y"
      by (auto simp: checkOverlap_None)
    from y bs1 obtain x where x: "x \<in> set (bookings s)"
      and yx: "y = (if b_id x = i then ?mc else x)" by auto
    show False
    proof (cases "b_id x = i")
      case True
      with yx hit show False by (simp add: overlapFilter_def)
    next
      case False
      with yx hit x have "checkOverlap s (room B) (startTime B) (endTime B) (Some i)"
        by (auto simp: checkOverlap_def list_ex_iff)
      with assms(15) show False by simp
    qed
  qed
  have groups1: "activeRecurrenceGroups s1 (room B) (startTime B) (endTime B)
               = activeRecurrenceGroups s (room B) (startTime B) (endTime B)"
    using same by (simp add: activeRecurrenceGroups_def)
  have scan: "checkOverlapWithRecurring z s1 (room B) (startTime B) (endTime B) None = Some False"
    using free assms(16) by (simp add: checkOverlapWithRecurring_def groups1)
  have room1: "findRoom s1 (room B) = Some r"
    using assms(13) same by (simp add: findRoom_def)
  have check: "createBooking_check z s1 c req = Some (Inr atts)"
    using assms(6,7,8,9,11,12,14) room1 scan by (simp add: createBooking_check_def)
  let ?b = "\<lparr>b_id = next_id s1, room = room B, bookedBy = u_id c, startTime = startTime B,
              endTime = endTime B, attendees = atts, recurrenceGroup = None, status = Confirmed,
              cancelledBy = None, cancellationReason = None, cancelledAt = None\<rparr>"
  have create: "Booking_create (room B) (u_id c) (startTime B) (endTime B) atts None s1
      = Inr (?b, s1\<lparr>bookings := bookings s1 @ [?b], next_id := Suc (next_id s1)\<rparr>)"
    using assms(4,12) by (simp add: Booking_create_def Let_def preSave_def)
  have persist: "fst (persistSingle s1 c req atts False) = Inr ?b
      \<and> bookings (snd (persistSingle s1 c req atts False)) = bookings s1 @ [?b]"
    using create assms(7,8,9) by (simp add: persistSingle_def Let_def)
  have commit: "createBooking_commit z s1 now' c req atts = Some (persistSingle s1 c req atts False)"
    using assms(6,10) by (simp add: createBooking_commit_def createSingle_def split: option.splits)
  have run: "createBooking z s1 now' c req
               = Some (Inr ?b, snd (persistSingle s1 c req atts False))"
    using check commit persist
    by (cases "persistSingle s1 c req atts False") (simp add: createBooking_def)
  have "?b \<in> set (bookings (snd (persistSingle s1 c req atts False)))"
    using persist by simp
  with cancel run show ?thesis
    by (intro exI [of _ s1] exI [of _ ?b] exI [of _ "snd (persistSingle s1 c req atts False)"])
       (simp add: cancelled_never_matches)
qed

theorem cancel_then_recreate_succeeds_witness:
  "\<exists>s1 b s2.
      cancelBooking exampleDb 5 memberUser 10 ''moved''
        = (Inr (markCancelled memberUser 5 ''moved''
                  (confirmedBooking 10 1 (600 * minute_ms) (660 * minute_ms))), s1)
    \<and> createBooking utcZone s1 6 otherMember
         \<lparr>req_room = 1, req_startTime = 600 * minute_ms, req_endTime = 660 * minute_ms,
          req_attendees = Some [9], req_isRecurring = False, req_recurrenceEndDate = None\<rparr>
        = Some (Inr b, s2)
    \<and> b \<in> set (bookings s2) \<and> status b = Confirmed \<and> room b = 1
    \<and> startTime b = 600 * minute_ms \<and> endTime b = 660 * minute_ms \<and> attendees b = [9]"
proof -
  let ?B = "confirmedBooking 10 1 (600 * minute_ms) (660 * minute_ms)"
  let ?req = "\<lparr>req_room = 1, req_startTime = 600 * minute_ms, req_endTime = 660 * minute_ms,
          req_attendees = Some [9], req_isRecurring = False, req_recurrenceEndDate = None\<rparr>"
  have h: "findBooking exampleDb 10 = Some ?B" "status ?B = Confirmed" "startTime ?B < endTime ?B"
    "u_role memberUser = Admin \<or> bookedBy ?B = u_id memberUser"
    "u_role otherMember \<noteq> Admin"
    "req_room ?req = room ?B" "req_startTime ?req = startTime ?B" "req_endTime ?req = endTime ?B"
    "\<not> req_isRecurring ?req" "req_attendees ?req = Some [9]" "[9::nat] \<noteq> []"
    "findRoom exampleDb (room ?B) = Some \<lparr>r_id = 1, r_name = ''Atlas'', capacity = 4\<rparr>"
    "int (length [9::nat]) \<le> capacity \<lparr>r_id = 1, r_name = ''Atlas'', capacity = 4\<rparr>"
    "\<not> checkOverlap exampleDb (room ?B) (startTime ?B) (endTime ?B) (Some 10)"
    "scanGroups utcZone (activeRecurrenceGroups exampleDb (room ?B) (startTime ?B) (endTime ?B))
           (startTime ?B) (endTime ?B) = Some False"
    by code_simp+
  from cancel_then_recreate_succeeds
    [OF exampleDb_wellFormed h, where now = 5 and reason = "''moved''" and now' = 6]
  obtain s1 b s2 where
    "cancelBooking exampleDb 5 memberUser 10 ''moved'' = (Inr (markCancelled memberUser 5 ''moved'' ?B), s1)"
    "createBooking utcZone s1 6 otherMember ?req = Some (Inr b, s2)"
    "b \<in> set (bookings s2)" "status b = Confirmed" "room b = room ?B"
    "startTime b = startTime ?B" "endTime b = endTime ?B" "attendees b = [9]"
    by (elim exE conjE)
  then show ?thesis
    by (intro exI [of _ s1] exI [of _ b] exI [of _ s2]) (simp add: confirmedBooking_def)
qed
section \<open>At most fifty attendees\<close>

lemma persistSingle_Inr:
  "persistSingle s1 u req atts flag = (Inr b, s') \<Longrightarrow> attendees b = atts \<and> room b = req_room req"
  by (auto simp: persistSingle_def Booking_create_def Let_def split: if_splits)

lemma createSingle_Inr:
  "createSingle z s now u req atts = Some (Inr b, s') \<Longrightarrow> attendees b = atts \<and> room b = req_room req"
  by (auto simp: createSingle_def split: if_splits option.splits prod.splits
      dest: persistSingle_Inr)

lemma createBooking_check_Inr:
  "createBooking_check z s u req = Some (Inr atts) \<Longrightarrow>
     req_attendees req = Some atts \<and> atts \<noteq> []
   \<and> (\<exists>r. findRoom s (req_room req) = Some r \<and> int (length atts) \<le> capacity r)"
  by (auto simp: createBooking_check_def split: option.splits if_splits)

lemma createBooking_Inr:
  assumes "createBooking z s now u req = Some (Inr b, s')"
  shows "req_attendees req = Some (attendees b) \<and> attendees b \<noteq> [] \<and> room b = req_room req
       \<and> (\<exists>r. findRoom s (room b) = Some r \<and> int (length (attendees b)) \<le> capacity r)"
proof -
  from assms obtain atts where check: "createBooking_check z s u req = Some (Inr atts)"
    and commit: "createBooking_commit z s now u req atts = Some (Inr b, s')"
    by (auto simp: createBooking_def split: option.splits sum.splits)
  from commit have "createSingle z s now u req atts = Some (Inr b, s')"
    by (auto simp: createBooking_commit_def split: option.splits if_splits
        dest: createRecurring_never_succeeds)
  from createSingle_Inr [OF this] createBooking_check_Inr [OF check] show ?thesis by auto
qed

lemma validation_too_many:
  "raw_attendees raw = AttendeesArray atts \<Longrightarrow> 50 < length atts \<Longrightarrow> bookingValidation raw \<noteq> []"
  by (simp add: bookingValidation_def attendeesCustom_def)

lemma validation_passed:
  assumes "bookingValidation raw = []"
  shows "\<exists>r st en atts. raw_room raw = Some r \<and> raw_startTime raw = Some st
           \<and> raw_endTime raw = Some en \<and> st < en
           \<and> raw_attendees raw = AttendeesArray atts \<and> 1 \<le> length atts \<and> length atts \<le> 50"
  using assms
  by (cases "raw_room raw"; cases "raw_startTime raw"; cases "raw_endTime raw";
      cases "raw_attendees raw")
     (auto simp: bookingValidation_def attendeesCustom_def Suc_le_eq split: if_splits)

text \<open>
  Claim C10. At the route \<open>POST /api/bookings\<close> a request whose attendee array has
  more than 50 entries is rejected by the validators, whatever the capacity of the room,
  and the store is left as it was: the handler does not run. A request that passes the
  validators and the handler's own checks has between 1 and 50 attendees and no more
  than the room holds; the same bounds hold for the booking returned by a success.
\<close>

theorem at_most_fifty_attendees:
  "(\<forall>atts. raw_attendees raw = AttendeesArray atts \<and> 50 < length atts \<longrightarrow>
       postBooking z s now u raw = Some (Inl (InvalidRequest (bookingValidation raw)), s))
 \<and> (\<forall>r st en atts.
       bookingValidation raw = [] \<and> createBooking_check z s u (requestBody raw r st en) = Some (Inr atts)
       \<longrightarrow> 1 \<le> length atts \<and> length atts \<le> 50
         \<and> (\<exists>rm. findRoom s r = Some rm \<and> int (length atts) \<le> min (capacity rm) 50))
 \<and> (\<forall>b s'. postBooking z s now u raw = Some (Inr b, s') \<longrightarrow>
       1 \<le> length (attendees b) \<and> length (attendees b) \<le> 50
     \<and> (\<exists>rm. findRoom s (room b) = Some rm \<and> int (length (attendees b)) \<le> min (capacity rm) 50))"
proof (intro conjI allI impI)
  fix atts assume "raw_attendees raw = AttendeesArray atts \<and> 50 < length atts"
  then have "bookingValidation raw \<noteq> []" using validation_too_many by blast
  then show "postBooking z s now u raw = Some (Inl (InvalidRequest (bookingValidation raw)), s)"
    by (simp add: postBooking_def handleValidationErrors_def)
next
  fix r st en atts
  assume h: "bookingValidation raw = [] \<and> createBooking_check z s u (requestBody raw r st en) = Some (Inr atts)"
  from validation_passed [of raw] h obtain atts' where
    a: "raw_attendees raw = AttendeesArray atts'" "1 \<le> length atts'" "length atts' \<le> 50" by blast
  from createBooking_check_Inr [of z s u "requestBody raw r st en" atts] h
  obtain rm where c: "raw_attendees raw = AttendeesArray atts" "findRoom s r = Some rm"
      "int (length atts) \<le> capacity rm"
    by (auto simp: requestBody_def split: attendees_field.splits)
  from a c have "atts' = atts" by simp
  with a c
  show "1 \<le> length atts" "length atts \<le> 50"
    "\<exists>rm. findRoom s r = Some rm \<and> int (length atts) \<le> min (capacity rm) 50"
    by auto
next
  fix b s' assume run: "postBooking z s now u raw = Some (Inr b, s')"
  then have ok: "bookingValidation raw = []"
    by (auto simp: postBooking_def handleValidationErrors_def split: if_splits)
  from validation_passed [OF ok] obtain r st en atts where
    v: "raw_room raw = Some r" "raw_startTime raw = Some st" "raw_endTime raw = Some en"
      "raw_attendees raw = AttendeesArray atts" "1 \<le> length atts" "length atts \<le> 50" by blast
  from run ok v have "createBooking z s now u (requestBody raw r st en) = Some (Inr b, s')"
    by (simp add: postBooking_def handleValidationErrors_def)
  from createBooking_Inr [OF this] v(4)
  obtain rm where c: "attendees b = atts" "findRoom s (room b) = Some rm"
      "int (length (attendees b)) \<le> capacity rm"
    by (auto simp: requestBody_def)
  with v show "1 \<le> length (attendees b)" "length (attendees b) \<le> 50"
    "\<exists>rm. findRoom s (room b) = Some rm \<and> int (length (attendees b)) \<le> min (capacity rm) 50"
    by auto
qed


theorem at_most_fifty_attendees_witness:
  "postBooking utcZone hallDb 5 memberUser crowdedRaw
     = Some (Inl (InvalidRequest [''Too many attendees selected'']), hallDb)
   \<and> map_option (capacity) (findRoom hallDb 3) = Some 100
   \<and> map_option (map_sum id (length \<circ> attendees) \<circ> fst)
        (createBooking utcZone hallDb 5 memberUser (requestBody crowdedRaw 3 (720 * minute_ms) (780 * minute_ms)))
     = Some (Inr 51)
   \<and> map_option (map_sum id (length \<circ> attendees) \<circ> fst)
        (postBooking utcZone hallDb 5 memberUser (crowdedRaw\<lparr>raw_attendees := AttendeesArray [8, 9]\<rparr>))
     = Some (Inr 2)"
proof -
  have many: "raw_attendees crowdedRaw = AttendeesArray [0..<51] \<and> 50 < length [0..<51]"
    by (simp add: crowdedRaw_def)
  have errs: "bookingValidation crowdedRaw = [''Too many attendees selected'']"
    by code_simp
  from at_most_fifty_attendees
    [where raw = crowdedRaw and z = utcZone and s = hallDb and now = 5 and u = memberUser] many
  have "postBooking utcZone hallDb 5 memberUser crowdedRaw
          = Some (Inl (InvalidRequest (bookingValidation crowdedRaw)), hallDb)"
    by blast
  then have "postBooking utcZone hallDb 5 memberUser crowdedRaw
          = Some (Inl (InvalidRequest [''Too many attendees selected'']), hallDb)"
    by (simp only: errs)
  moreover have "map_option (capacity) (findRoom hallDb 3) = Some 100"
    by code_simp
  moreover have "map_option (map_sum id (length \<circ> attendees) \<circ> fst)
        (createBooking utcZone hallDb 5 memberUser (requestBody crowdedRaw 3 (720 * minute_ms) (780 * minute_ms)))
     = Some (Inr 51)"
    by code_simp
  moreover have "map_option (map_sum id (length \<circ> attendees) \<circ> fst)
        (postBooking utcZone hallDb 5 memberUser (crowdedRaw\<lparr>raw_attendees := AttendeesArray [8, 9]\<rparr>))
     = Some (Inr 2)"
    by code_simp
  ultimately show ?thesis by (intro conjI)
qed
text \<open>
  Every validator of the \<open>attendees\<close> chain runs: a request without the field is
  refused with the same message twice, one with a string in its place once.
\<close>

lemma validation_without_attendees:
  "bookingValidation (crowdedRaw\<lparr>raw_attendees := AttendeesMissing\<rparr>)
     = [''At least one attendee is required'', ''At least one attendee is required'']
   \<and> bookingValidation (crowdedRaw\<lparr>raw_attendees := AttendeesOther (Some 3)\<rparr>)
     = [''At least one attendee is required'']"
  by code_simp


section \<open>Recurring requests of a member\<close>

text \<open>
  On a host in UTC the calendar arithmetic is plain arithmetic on the instant.
\<close>

lemma utcZone_simps:
  "localTime utcZone t = t"
  "utcTime utcZone t = t"
  "localDay utcZone t = t div day_ms"
  "addDays utcZone t n = t + n * day_ms"
  "toDateString utcZone t = t div day_ms"
  by (simp_all add: utcZone_def localTime_def utcTime_def localDay_def addDays_def
      toDateString_def)

lemma minute_floor:
  "combineDateAndTime utcZone t (timeString utcZone t) = t - t mod minute_ms"
proof -
  have h: "t mod 86400000 = ((t mod 86400000) div 3600000) * 3600000 + t mod 3600000"
  proof -
    have "(t mod 86400000) mod 3600000 = t mod 3600000"
      by (rule mod_mod_cancel) simp
    then show ?thesis using div_mult_mod_eq [of "t mod 86400000" 3600000] by simp
  qed
  have m: "t mod 3600000 = ((t mod 3600000) div 60000) * 60000 + t mod 60000"
  proof -
    have "(t mod 3600000) mod 60000 = t mod 60000"
      by (rule mod_mod_cancel) simp
    then show ?thesis using div_mult_mod_eq [of "t mod 3600000" 60000] by simp
  qed
  have "t div 86400000 * 86400000 + (t mod 86400000) div 3600000 * 3600000
          + (t mod 3600000) div 60000 * 60000 = t - t mod 60000"
    using div_mult_mod_eq [of t 86400000] h m by linarith
  then show ?thesis
    by (simp add: combineDateAndTime_def timeString_def getHours_def getMinutes_def
        utcZone_simps day_ms_def hour_ms_def minute_ms_def)
qed

lemma combine_multiple_of_minute: "minute_ms dvd combineDateAndTime utcZone d (h, m)"
  by (simp add: combineDateAndTime_def utcZone_simps day_ms_def hour_ms_def minute_ms_def)

lemma next_minute:
  assumes "minute_ms dvd a" and "minute_ms dvd b" and "a < b"
  shows "a + minute_ms \<le> b"
proof -
  from assms(1,2) obtain i j where a: "a = minute_ms * i" and b: "b = minute_ms * j"
    by (auto simp: dvd_def)
  with assms(3) have "i < j" by (simp add: minute_ms_def)
  then have "i + 1 \<le> j" by simp
  then show ?thesis unfolding a b by (simp add: minute_ms_def)
qed

lemma combine_week:
  "combineDateAndTime utcZone (d + 7 * k * day_ms) ts
     = combineDateAndTime utcZone d ts + 7 * k * day_ms"
proof -
  have "(d + 7 * k * 86400000) div 86400000 = d div 86400000 + 7 * k"
    by simp
  then show ?thesis
    by (cases ts) (simp add: combineDateAndTime_def utcZone_simps day_ms_def algebra_simps)
qed

lemma weekly_utc_nth:
  assumes "\<forall>i. Suc i < length ds \<longrightarrow> ds ! Suc i = addDays utcZone (ds ! i) 7"
    and "ds \<noteq> [] \<longrightarrow> hd ds = c"
  shows "i < length ds \<Longrightarrow> ds ! i = c + 7 * int i * day_ms"
proof (induction i)
  case 0
  then show ?case using assms(2) by (cases ds) simp_all
next
  case (Suc i)
  then have "ds ! Suc i = addDays utcZone (ds ! i) 7" using assms(1) by simp
  with Suc show ?case by (simp add: utcZone_simps algebra_simps)
qed

lemma generateRecurringDates_utc_own_day:
  "\<exists>ds. generateRecurringDates utcZone t e (getDay utcZone t) = Some ds
        \<and> (ds = [] \<longleftrightarrow> e < t)
        \<and> (\<forall>d \<in> set ds. \<exists>k. 0 \<le> k \<and> d = t + 7 * k * day_ms \<and> d \<le> e)"
proof -
  from allOccurrences_weekly [OF utcZone_regular, of t e] obtain ds
    where w0: "allOccurrences utcZone t e = Some ds"
      and w1: "ds = [] \<longleftrightarrow> e < t"
      and w2: "ds \<noteq> [] \<longrightarrow> hd ds = t"
      and w3: "\<forall>d \<in> set ds. d \<le> e \<and> t \<le> d \<and> getDay utcZone d = getDay utcZone t"
      and w4: "\<forall>i. Suc i < length ds \<longrightarrow> ds ! Suc i = addDays utcZone (ds ! i) 7"
    by (elim exE conjE)
  have "\<exists>k. 0 \<le> k \<and> d = t + 7 * k * day_ms \<and> d \<le> e" if "d \<in> set ds" for d
  proof -
    from that obtain i where i: "i < length ds" "d = ds ! i" by (auto simp: in_set_conv_nth)
    from weekly_utc_nth [OF w4 w2 i(1)] i(2) have "d = t + 7 * int i * day_ms" by simp
    with w3 that show ?thesis by (intro exI [of _ "int i"]) simp
  qed
  with w0 w1 show ?thesis
    by (simp add: generateRecurringDates_def firstOccurrence_own_day)
qed

lemma scanGroups_hit:
  assumes "regularZone z"
    and "\<forall>g \<in> set gs. 0 \<le> dayOfWeek g \<and> dayOfWeek g \<le> 6" and "g \<in> set gs"
    and "generateRecurringDates z (startDate g) (endDate g) (dayOfWeek g) = Some ds"
    and "d \<in> set ds" and "overlapsInstance z g st en d"
  shows "scanGroups z gs st en = Some True"
  using assms(2,3)
proof (induction gs)
  case Nil
  then show ?case by simp
next
  case (Cons g' gs)
  from Cons.prems(1) have "0 \<le> dayOfWeek g'" "dayOfWeek g' \<le> 6" by simp_all
  from generateRecurringDates_Some [OF assms(1) this] obtain ds'
    where ds': "generateRecurringDates z (startDate g') (endDate g') (dayOfWeek g') = Some ds'"
    by blast
  show ?case
  proof (cases "g' = g")
    case True
    with ds' assms(4) have "ds' = ds" by simp
    moreover have "list_ex (overlapsInstance z g st en) ds"
      using assms(5,6) by (auto simp: list_ex_iff)
    ultimately show ?thesis using True ds' by simp
  next
    case False
    with Cons.prems have "g \<in> set gs" "\<forall>g \<in> set gs. 0 \<le> dayOfWeek g \<and> dayOfWeek g \<le> 6"
      by simp_all
    from Cons.IH [OF this(2,1)] show ?thesis using ds' by simp
  qed
qed

lemma own_group_blocks:
  assumes "wellFormed s1" and "g \<in> set (groups s1)" and "g_room g = r"
    and "dayOfWeek g = getDay utcZone t" and "startDate g = t" and "endDate g = recEnd"
    and "baseStartTime g = timeString utcZone t" and "baseEndTime g = timeString utcZone en"
    and "combineDateAndTime utcZone t (timeString utcZone t)
           < combineDateAndTime utcZone t (timeString utcZone en)"
    and "generateRecurringDates utcZone t recEnd (getDay utcZone t) = Some ds"
    and "d \<in> set ds"
    and "0 \<le> k" and "d = t + 7 * k * day_ms" and "d \<le> recEnd"
  shows "checkOverlapWithRecurring utcZone s1 r (combineDateAndTime utcZone d (timeString utcZone t))
           (combineDateAndTime utcZone d (timeString utcZone en)) None = Some True"
proof (cases "checkOverlap s1 r (combineDateAndTime utcZone d (timeString utcZone t))
               (combineDateAndTime utcZone d (timeString utcZone en)) None")
  case True
  then show ?thesis by (simp add: checkOverlapWithRecurring_def)
next
  case False
  let ?S = "combineDateAndTime utcZone d (timeString utcZone t)"
  let ?E = "combineDateAndTime utcZone d (timeString utcZone en)"
  let ?P = "combineDateAndTime utcZone t (timeString utcZone t)"
  let ?Q = "combineDateAndTime utcZone t (timeString utcZone en)"
  have S: "?S = ?P + 7 * k * day_ms" and E: "?E = ?Q + 7 * k * day_ms"
    by (simp_all only: assms(13) combine_week)
  have floor: "?P = t - t mod minute_ms" by (rule minute_floor)
  have rem: "0 \<le> t mod minute_ms" "t mod minute_ms < minute_ms"
    by (simp_all add: minute_ms_def)
  obtain h1 m1 h2 m2 where ts: "timeString utcZone t = (h1, m1)" "timeString utcZone en = (h2, m2)"
    by (cases "timeString utcZone t", cases "timeString utcZone en") auto
  have "?P + minute_ms \<le> ?Q"
    using assms(9) unfolding ts
    by (intro next_minute combine_multiple_of_minute)
  then have after: "t < ?Q" using floor rem by linarith
  have lt: "?S < ?E" using assms(9) S E by simp
  have k0: "0 \<le> 7 * k * day_ms" using assms(12) by (simp add: day_ms_def)
  have act1: "startDate g \<le> ?E" using after E k0 assms(5) by linarith
  have "?S \<le> d" using S floor rem assms(13) by simp
  then have act2: "endDate g \<ge> ?S" using assms(14) assms(6) by linarith
  have active: "g \<in> set (activeRecurrenceGroups s1 r ?S ?E)"
    using assms(2,3) act1 act2 by (simp add: activeRecurrenceGroups_def)
  have ok: "\<forall>g \<in> set (activeRecurrenceGroups s1 r ?S ?E). 0 \<le> dayOfWeek g \<and> dayOfWeek g \<le> 6"
    using assms(1) by (simp add: wellFormed_def activeRecurrenceGroups_def)
  have dates: "generateRecurringDates utcZone (startDate g) (endDate g) (dayOfWeek g) = Some ds"
    using assms(4,5,6,10) by simp
  have inst: "overlapsInstance utcZone g ?S ?E d"
    using lt assms(7,8) by (simp add: overlapsInstance_def)
  from scanGroups_hit [OF utcZone_regular ok active dates assms(11) inst] False show ?thesis
    by (simp add: checkOverlapWithRecurring_def)
qed

lemma conflictDates_all:
  "\<forall>d \<in> set ds. checkOverlapWithRecurring z s r (combineDateAndTime z d bst)
                    (combineDateAndTime z d bet) None = Some True
   \<Longrightarrow> conflictDates z s r bst bet ds = Some (map (toDateString z) ds)"
  by (induction ds) simp_all

text \<open>
  On a host in UTC, every weekly request of a member whose start time of day is before
  its end time of day, and whose start is not after the end of the recurrence, is
  refused with the dates of all its occurrences, whatever the store holds: the
  recurrence group written before the scan makes every occurrence collide with the
  request itself. The group stays in the store.
\<close>

lemma member_recurring_always_refused:
  assumes "wellFormed s" and "u_role u \<noteq> Admin" and "req_startTime req \<le> recEnd"
    and "combineDateAndTime utcZone (req_startTime req) (timeString utcZone (req_startTime req))
           < combineDateAndTime utcZone (req_startTime req) (timeString utcZone (req_endTime req))"
  shows "\<exists>g ds. createRecurring utcZone s now u req atts recEnd =
           Some (Inl (DatesTaken (map (toDateString utcZone) ds)),
                 s\<lparr>groups := groups s @ [g], next_id := Suc (next_id s)\<rparr>)
            \<and> generateRecurringDates utcZone (req_startTime req) recEnd
                 (getDay utcZone (req_startTime req)) = Some ds
            \<and> ds \<noteq> []"
proof -
  let ?st = "req_startTime req"
  let ?bst = "timeString utcZone ?st" and ?bet = "timeString utcZone (req_endTime req)"
  from generateRecurringDates_utc_own_day [of ?st recEnd]
  obtain ds where gen: "generateRecurringDates utcZone ?st recEnd (getDay utcZone ?st) = Some ds"
    and ne: "ds = [] \<longleftrightarrow> recEnd < ?st"
    and el: "\<forall>d \<in> set ds. \<exists>k. 0 \<le> k \<and> d = ?st + 7 * k * day_ms \<and> d \<le> recEnd"
    by (elim exE conjE)
  from RecurrenceGroup_create_getDay
    [where c = "u_id u" and r = "req_room req" and z = utcZone and t = ?st and sd = ?st
       and ed = recEnd and bst = ?bst and bet = ?bet and s = s]
  obtain g where g: "RecurrenceGroup_create (u_id u) (req_room req) (getDay utcZone ?st) ?st recEnd
                       ?bst ?bet s
      = Inr (g, s\<lparr>groups := groups s @ [g], next_id := Suc (next_id s)\<rparr>)"
    and gf0: "g_id g = next_id s"
    and gf: "g_room g = req_room req" "dayOfWeek g = getDay utcZone ?st" "startDate g = ?st"
      "endDate g = recEnd" "baseStartTime g = ?bst" "baseEndTime g = ?bet"
    by (elim exE conjE)
  let ?s1 = "s\<lparr>groups := groups s @ [g], next_id := Suc (next_id s)\<rparr>"
  have wf1: "wellFormed ?s1"
    using assms(1) gf(2) getDay_range [of utcZone ?st] by (auto simp: wellFormed_def less_Suc_eq)
  have g_in: "g \<in> set (groups ?s1)" by simp
  have "\<forall>d \<in> set ds. checkOverlapWithRecurring utcZone ?s1 (req_room req)
                    (combineDateAndTime utcZone d ?bst)
                    (combineDateAndTime utcZone d ?bet) None = Some True"
  proof
    fix d assume d: "d \<in> set ds"
    with el obtain k where k: "0 \<le> k" "d = ?st + 7 * k * day_ms" "d \<le> recEnd" by blast
    show "checkOverlapWithRecurring utcZone ?s1 (req_room req)
                    (combineDateAndTime utcZone d ?bst)
                    (combineDateAndTime utcZone d ?bet) None = Some True"
      by (rule own_group_blocks [OF wf1 g_in gf assms(4) gen d k])
  qed
  then have cds: "conflictDates utcZone ?s1 (req_room req) ?bst ?bet ds
                    = Some (map (toDateString utcZone) ds)"
    by (rule conflictDates_all)
  have ne': "ds \<noteq> []" using assms(3) ne by simp
  have run: "createRecurring utcZone s now u req atts recEnd =
           Some (Inl (DatesTaken (map (toDateString utcZone) ds)), ?s1)"
    using g cds ne' assms(2) gen by (simp add: createRecurring_def Let_def)
  show ?thesis
    by (intro exI [of _ g] exI [of _ ds] conjI run gen ne')
qed


section \<open>Further facts about the handlers\<close>

text \<open>
  An occurrence is built from the two times of day on the same calendar date. For a
  request that runs past midnight the occurrence ends before it starts; the override
  query then matches every confirmed booking of the room around it, and the creation of
  the occurrence fails in the save hook afterwards.
\<close>

lemma overnight_recurring_override:
  "map_option fst (createBooking utcZone exampleDb 5 adminUser overnightRequest)
     = Some (Inl (Uncaught SaveError))
   \<and> map_option (map b_id \<circ> bookings \<circ> snd) (createBooking utcZone exampleDb 5 adminUser overnightRequest)
     = Some [10, 11, 12, 13]
   \<and> map_option (map status \<circ> bookings \<circ> snd) (createBooking utcZone exampleDb 5 adminUser overnightRequest)
     = Some [Cancelled, Cancelled, Cancelled, Confirmed]
   \<and> [overlaps (600 * minute_ms) (660 * minute_ms) (1380 * minute_ms) (1500 * minute_ms),
       overlaps (840 * minute_ms) (900 * minute_ms) (1380 * minute_ms) (1500 * minute_ms),
       overlaps (900 * minute_ms) (960 * minute_ms) (1380 * minute_ms) (1500 * minute_ms)]
     = [False, False, False]"
  by code_simp

text \<open>The update handler never reads the recurrence groups and changes no other booking.\<close>

lemma updateBooking_ignores_groups:
  "fst (updateBooking (s\<lparr>groups := gs\<rparr>) u i body) = fst (updateBooking s u i body)"
  by (simp add: updateBooking_def findBooking_def checkOverlap_def Let_def split: option.splits)

lemma updateBooking_keeps_others:
  assumes "x \<in> set (bookings s)" and "b_id x \<noteq> i"
  shows "x \<in> set (bookings (snd (updateBooking s u i body)))"
proof -
  have "x \<in> set (map (\<lambda>y. if b_id y = i then applyUpdate body y else y) (bookings s))"
    using assms by (auto simp: image_iff intro!: bexI [of _ x])
  then show ?thesis
    using assms(1) by (simp add: updateBooking_def Let_def split: option.splits)
qed

end
